theory Spec2Isabelle
  imports Main "HOL-Library.Sublist"
begin

section \<open>JavaScript values\<close>

text \<open>
  The engine of \<^verbatim>\<open>src/fractal.js\<close> moves untyped JavaScript values around: records,
  thrown values, the arguments and results of collection methods. They are modelled by
  one datatype. \<open>JCollection xs\<close> is a Collection as a handler sees it: its records,
  without the methods attached to it, so that a handler cannot call another method through
  the state it is given. \<open>JStateObj f c\<close> is the object literal
  \<^verbatim>\<open>{files: f, components: c}\<close> that the \<^verbatim>\<open>state\<close> getter builds. Numbers are
  integers. Equality is structural; object identity is not modelled.
\<close>

datatype jsval =
    JUndefined
  | JNull
  | JBool bool
  | JNum int
  | JStr string
  | JError string
  | JObj "(string \<times> jsval) list"
  | JArr "jsval list"
  | JCollection "jsval list"
  | JStateObj jsval jsval

text \<open>JavaScript's ToBoolean, as used by \<^verbatim>\<open>if (err)\<close> and \<^verbatim>\<open>input || []\<close>.\<close>

fun truthy :: "jsval \<Rightarrow> bool" where
  "truthy JUndefined = False"
| "truthy JNull = False"
| "truthy (JBool b) = b"
| "truthy (JNum n) = (n \<noteq> 0)"
| "truthy (JStr s) = (s \<noteq> [])"
| "truthy (JError m) = True"
| "truthy (JObj kvs) = True"
| "truthy (JArr xs) = True"
| "truthy (JCollection xs) = True"
| "truthy (JStateObj f c) = True"

definition TypeError :: jsval where
  "TypeError = JError ''TypeError''"

text \<open>
  What a handler can do with the values it receives. \<open>call_toArray v\<close> is the call
  \<^verbatim>\<open>v.toArray()\<close>: only a Collection has that method, on anything else the call
  throws a TypeError. \<open>get_prop v k\<close> is the property read \<^verbatim>\<open>v.k\<close>, which throws on
  \<^verbatim>\<open>undefined\<close> and \<^verbatim>\<open>null\<close> and gives \<^verbatim>\<open>undefined\<close> for a missing property.
\<close>

fun call_toArray :: "jsval \<Rightarrow> jsval + jsval" where
  "call_toArray (JCollection xs) = Inr (JArr xs)"
| "call_toArray _ = Inl TypeError"

fun get_prop :: "jsval \<Rightarrow> string \<Rightarrow> jsval + jsval" where
  "get_prop JUndefined k = Inl TypeError"
| "get_prop JNull k = Inl TypeError"
| "get_prop (JStateObj f c) k =
     Inr (if k = ''files'' then f else if k = ''components'' then c else JUndefined)"
| "get_prop (JObj kvs) k = Inr (case map_of kvs k of None \<Rightarrow> JUndefined | Some v \<Rightarrow> v)"
| "get_prop (JArr xs) k = Inr (if k = ''length'' then JNum (int (length xs)) else JUndefined)"
| "get_prop (JStr s) k = Inr (if k = ''length'' then JNum (int (length s)) else JUndefined)"
| "get_prop (JCollection xs) k =
     Inr (if k = ''length'' then JNum (int (length xs)) else JUndefined)"
| "get_prop _ k = Inr JUndefined"

section \<open>Plugins, methods and collections\<close>

text \<open>
  A plugin is called as \<^verbatim>\<open>plugin(records, engineRef)\<close> and either produces the next
  record array or fails (it throws, or its promise rejects) with a value. The engine
  reference is the address of the engine object, a number here.

  A method handler is called as \<^verbatim>\<open>handler(args, state, engineRef)\<close>. Its first
  parameter in the model is the handler's own \<^verbatim>\<open>this\<close>.
\<close>

type_synonym plugin = "jsval list \<Rightarrow> nat \<Rightarrow> jsval + jsval list"

type_synonym handler = "jsval \<Rightarrow> jsval list \<Rightarrow> jsval \<Rightarrow> nat \<Rightarrow> jsval + jsval"

text \<open>
  \<^verbatim>\<open>const wrappedHandler = (...args) => handler(args, this.state, this)\<close> is a closure
  over \<^verbatim>\<open>handler\<close> and over the engine \<^verbatim>\<open>this\<close> of \<^verbatim>\<open>addMethod\<close>: the pair of the
  two. \<^verbatim>\<open>wrappedHandler.bind(collection)\<close> is a bound function object, \<open>BoundFn\<close>:
  its target and the \<^verbatim>\<open>this\<close> it was bound to.
\<close>

type_synonym wrapped = "handler \<times> nat"

datatype jsfun = BoundFn wrapped jsval | ToArrayFn

text \<open>
  The properties of an object, by key. Every property the model holds is itself an object:
  a function or a plain object, with properties of its own.
\<close>

datatype node = Node "jsfun option" "string \<Rightarrow> node option"

text \<open>
  \<^verbatim>\<open>_.set(object, path, value)\<close> of lodash, on a path already cast to its keys, and the
  read \<^verbatim>\<open>object.k1.k2...\<close>. The keys are taken in turn. At one of the keys
  \<^verbatim>\<open>__proto__\<close>, \<^verbatim>\<open>constructor\<close> and \<^verbatim>\<open>prototype\<close> the assignment stops where it is. At
  the last key the value is assigned, replacing what was there. At a key before the last,
  the value there is kept when it is an object, a function included, and a new plain
  object is assigned when there is none; the assignment goes on inside it. An empty path
  changes nothing. What objects inherit or are born with (the members of
  \<^verbatim>\<open>Object.prototype\<close> and \<^verbatim>\<open>Function.prototype\<close>, the \<^verbatim>\<open>name\<close> and \<^verbatim>\<open>length\<close> of a
  function) is not in the model: see \<open>preset_key\<close>.
\<close>

definition guarded_key :: "string \<Rightarrow> bool" where
  "guarded_key k \<longleftrightarrow> k = ''__proto__'' \<or> k = ''constructor'' \<or> k = ''prototype''"

fun set_in :: "(string \<Rightarrow> node option) \<Rightarrow> string list \<Rightarrow> node \<Rightarrow> (string \<Rightarrow> node option)" where
  "set_in ps [] v = ps"
| "set_in ps [k] v = (if guarded_key k then ps else ps(k \<mapsto> v))"
| "set_in ps (k # k' # ks) v =
     (if guarded_key k then ps
      else ps(k \<mapsto> (case ps k of
                        None \<Rightarrow> Node None (set_in Map.empty (k' # ks) v)
                      | Some (Node f cs) \<Rightarrow> Node f (set_in cs (k' # ks) v))))"

fun get_in :: "(string \<Rightarrow> node option) \<Rightarrow> string list \<Rightarrow> node option" where
  "get_in ps [] = None"
| "get_in ps [k] = ps k"
| "get_in ps (k # k' # ks) =
     (case ps k of None \<Rightarrow> None | Some (Node f cs) \<Rightarrow> get_in cs (k' # ks))"

text \<open>The function found at a path, when what is there can be called.\<close>

definition fn_at :: "(string \<Rightarrow> node option) \<Rightarrow> string list \<Rightarrow> jsfun option" where
  "fn_at ps p = (case get_in ps p of Some (Node (Some f) cs) \<Rightarrow> Some f | _ \<Rightarrow> None)"

text \<open>
  Modelled from the spec: the class Collection of \<^verbatim>\<open>./collection\<close>, which is not among
  the sources. It is built from an ordered sequence of records, which no method attached
  later can reach, and its method \<^verbatim>\<open>toArray\<close> gives them back. \<open>props\<close> holds what can
  be read off the object by key: \<^verbatim>\<open>toArray\<close> from the start, then what
  \<^verbatim>\<open>_.set(collection, name, fn)\<close> has put there. \<open>ToArrayFn\<close> is the Collection's own
  \<^verbatim>\<open>toArray\<close>.
\<close>

record collection =
  items :: "jsval list"
  props :: "string \<Rightarrow> node option"

definition Collection :: "jsval list \<Rightarrow> collection" where
  "Collection xs = \<lparr>items = xs, props = [''toArray'' \<mapsto> Node (Some ToArrayFn) Map.empty]\<rparr>"

definition toArray :: "collection \<Rightarrow> jsval list" where
  "toArray c = items c"

text \<open>The Collection as a handler sees it.\<close>

definition view :: "collection \<Rightarrow> jsval" where
  "view c = JCollection (items c)"

text \<open>
  Modelled from the spec: the class Methods of \<^verbatim>\<open>./methods\<close>, which is not among the
  sources: \<^verbatim>\<open>add\<close> registers a \<open>(name, handler)\<close> pair and iteration yields the
  pairs in registration order.
\<close>

definition Methods_add :: "(string \<times> wrapped) list \<Rightarrow> string \<times> wrapped \<Rightarrow> (string \<times> wrapped) list" where
  "Methods_add ms m = ms @ [m]"

text \<open>
  Modelled from the spec: the class Plugins of \<^verbatim>\<open>./plugins\<close>, which is not among the
  sources: \<^verbatim>\<open>use\<close> appends a plugin; \<^verbatim>\<open>process(data, engineRef)\<close> runs the plugins
  registered at the moment it is invoked, in registration order, each on the output of
  the one before, and stops at the first failure.
\<close>

definition Plugins_use :: "plugin list \<Rightarrow> plugin \<Rightarrow> plugin list" where
  "Plugins_use ps p = ps @ [p]"

fun process :: "plugin list \<Rightarrow> jsval list \<Rightarrow> nat \<Rightarrow> jsval + jsval list" where
  "process [] data ctx = Inr data"
| "process (p # ps) data ctx =
     (case p data ctx of Inl err \<Rightarrow> Inl err | Inr out \<Rightarrow> process ps out ctx)"

section \<open>The engine\<close>

text \<open>
  A target is the object \<^verbatim>\<open>{methods, plugins, state}\<close> that the constructor stores for
  \<^verbatim>\<open>files\<close> and for \<^verbatim>\<open>components\<close>; \<open>tstate = None\<close> is \<^verbatim>\<open>state: null\<close>.
\<close>

record target =
  methods :: "(string \<times> wrapped) list"
  plugins :: "plugin list"
  tstate :: "collection option"

datatype entity = Files | Components

text \<open>
  What the engine lets the outside observe: the events it emits and, per parse, the calls
  of the completion callback.
\<close>

datatype event =
    EvParseStart
  | EvParseComplete "collection option" "collection option"
  | EvError jsval
  | EvLog string string

fun event_name :: "event \<Rightarrow> string" where
  "event_name EvParseStart = ''parse.start''"
| "event_name (EvParseComplete c f) = ''parse.complete''"
| "event_name (EvError err) = ''error''"
| "event_name (EvLog level message) = ''log.'' @ level"

text \<open>
  The engine object: its address, the private fields kept in \<^verbatim>\<open>refs\<close>
  (\<open>src_ref = None\<close> while \<^verbatim>\<open>refs.src\<close> has no entry), the patterns under which a
  listener was subscribed through the inherited \<^verbatim>\<open>on\<close>, and the events emitted so far.
\<close>

record engine =
  eid :: nat
  src_ref :: "string list option"
  files :: target
  components :: target
  transformer :: "jsval \<Rightarrow> jsval + jsval list"
  listeners :: "string list"
  emitted :: "event list"

definition get_target :: "engine \<Rightarrow> entity \<Rightarrow> target" where
  "get_target eng t = (case t of Files \<Rightarrow> files eng | Components \<Rightarrow> components eng)"

definition set_target :: "engine \<Rightarrow> entity \<Rightarrow> target \<Rightarrow> engine" where
  "set_target eng t tg = (case t of Files \<Rightarrow> eng\<lparr>files := tg\<rparr> | Components \<Rightarrow> eng\<lparr>components := tg\<rparr>)"

text \<open>
  The event emitter (the library class the engine extends, built with
  \<^verbatim>\<open>wildcard: true\<close>). Listeners are observers: they return normally. A listener is
  subscribed under a pattern of segments separated by dots, in which \<^verbatim>\<open>*\<close> stands for
  one segment and \<^verbatim>\<open>**\<close> for any number of them, and it hears the events whose name the
  pattern matches. The one rule of the library that matters to the engine is that emitting
  \<^verbatim>\<open>error\<close> while no listener hears it throws: the emitted value when it is an Error,
  a fresh Error otherwise. A listener added with \<^verbatim>\<open>onAny\<close> hears every event, as one
  subscribed under \<^verbatim>\<open>**\<close> does.
\<close>

fun split_at :: "char \<Rightarrow> string \<Rightarrow> string list" where
  "split_at d [] = [[]]"
| "split_at d (c # cs) =
     (if c = d then [] # split_at d cs
      else (case split_at d cs of [] \<Rightarrow> [[c]] | w # ws \<Rightarrow> (c # w) # ws))"

fun matches :: "string list \<Rightarrow> string list \<Rightarrow> bool" where
  "matches [] ns = (ns = [])"
| "matches (p # ps) [] = (p = ''**'' \<and> matches ps [])"
| "matches (p # ps) (n # ns) =
     (if p = ''**'' then matches ps (n # ns) \<or> matches (p # ps) ns
      else (p = ''*'' \<or> p = n) \<and> matches ps ns)"

definition heard :: "string list \<Rightarrow> string \<Rightarrow> bool" where
  "heard ls name = list_ex (\<lambda>p. matches (split_at CHR ''.'' p) (split_at CHR ''.'' name)) ls"

definition on :: "engine \<Rightarrow> string \<Rightarrow> engine" where
  "on eng name = eng\<lparr>listeners := listeners eng @ [name]\<rparr>"

definition uncaught :: "event \<Rightarrow> jsval" where
  "uncaught ev =
     (case ev of
        EvError (JError m) \<Rightarrow> JError m
      | _ \<Rightarrow> JError (''Uncaught, unspecified '' @ [CHR 0x27] @ ''error'' @ [CHR 0x27] @ '' event.''))"

definition emit :: "engine \<Rightarrow> event \<Rightarrow> jsval + engine" where
  "emit eng ev =
     (if event_name ev = ''error'' \<and> \<not> heard (listeners eng) ''error'' then Inl (uncaught ev)
      else Inr (eng\<lparr>emitted := emitted eng @ [ev]\<rparr>))"

text \<open>
  \<^verbatim>\<open>log(message)\<close> with no further argument: the level defaults to \<^verbatim>\<open>debug\<close> and the
  event \<^verbatim>\<open>log.debug\<close> is emitted. It is not an \<^verbatim>\<open>error\<close> event, so the emission
  returns.
\<close>

definition log :: "engine \<Rightarrow> string \<Rightarrow> engine" where
  "log eng message =
     (case emit eng (EvLog ''debug'' message) of Inl err \<Rightarrow> eng | Inr eng' \<Rightarrow> eng')"

text \<open>
  \<^verbatim>\<open>new Fractal()\<close>, without a configuration object: both targets empty with
  \<^verbatim>\<open>state: null\<close>, the transformer \<^verbatim>\<open>() => []\<close>, and, last, the no-op listener
  \<^verbatim>\<open>this.on('error', () => {})\<close>. The argument is the address of the new object.
\<close>

definition Fractal :: "nat \<Rightarrow> engine" where
  "Fractal a =
     on \<lparr>eid = a, src_ref = None,
         files = \<lparr>methods = [], plugins = [], tstate = None\<rparr>,
         components = \<lparr>methods = [], plugins = [], tstate = None\<rparr>,
         transformer = (\<lambda>fs. Inr []),
         listeners = [], emitted = []\<rparr> ''error''"

text \<open>The getters \<^verbatim>\<open>src\<close> and \<^verbatim>\<open>state\<close>.\<close>

definition src :: "engine \<Rightarrow> string list" where
  "src eng = (case src_ref eng of None \<Rightarrow> [] | Some ps \<Rightarrow> ps)"

definition state_slot :: "collection option \<Rightarrow> jsval" where
  "state_slot s = (case s of None \<Rightarrow> JNull | Some c \<Rightarrow> view c)"

definition state :: "engine \<Rightarrow> jsval" where
  "state eng = JStateObj (state_slot (tstate (files eng))) (state_slot (tstate (components eng)))"

section \<open>Configuration\<close>

text \<open>
  Collaborators that are not part of the repository are parameters: the file reader
  \<^verbatim>\<open>fs.readDir\<close>, whose promise rejects (\<open>Inl\<close>) or resolves with an array or with
  nothing (\<open>Inr None\<close>, which \<^verbatim>\<open>input || []\<close> turns into the empty array);
  \<^verbatim>\<open>utils.normalizePaths\<close>; the check \<^verbatim>\<open>validate.src\<close>, which throws
  (\<open>Some err\<close>) or returns; and lodash's \<^verbatim>\<open>castPath(name, object)\<close>, by which \<^verbatim>\<open>_.set\<close>
  turns a method name into the keys of a path, and which looks at the object only to see
  whether it already has a property called by the whole name (the second argument; the
  model answers it from the properties it holds, and lodash asks it only of a name that
  is not made of word characters alone). The other validators reject arguments of the wrong type, which the types of the model
  already exclude.
\<close>

datatype src_arg = Path string | Paths "string list"

record collab =
  readDir :: "string list \<Rightarrow> jsval + jsval list option"
  normalizePaths :: "src_arg \<Rightarrow> string list"
  validate_src :: "string \<Rightarrow> jsval option"
  castPath :: "string \<Rightarrow> bool \<Rightarrow> string list"

text \<open>
  \<^verbatim>\<open>addSrc\<close>: the \<^verbatim>\<open>forEach\<close> validates and logs each path in turn; a path that fails
  the check throws out of the loop, after the log events of the paths before it and before
  the list is stored. A throwing call gives \<open>Inl\<close> with the thrown value and the engine as
  it is then.
\<close>

fun addSrc_each :: "collab \<Rightarrow> engine \<Rightarrow> string list \<Rightarrow> (jsval \<times> engine) + engine" where
  "addSrc_each K eng [] = Inr eng"
| "addSrc_each K eng (p # ps) =
     (case validate_src K p of
        Some err \<Rightarrow> Inl (err, eng)
      | None \<Rightarrow> addSrc_each K (log eng (''Adding src: '' @ p)) ps)"

definition addSrc :: "collab \<Rightarrow> engine \<Rightarrow> src_arg \<Rightarrow> (jsval \<times> engine) + engine" where
  "addSrc K eng a =
     (let toAdd = normalizePaths K a;
          sources = (case src_ref eng of None \<Rightarrow> [] | Some ps \<Rightarrow> ps)
      in case addSrc_each K eng toAdd of
           Inl failed \<Rightarrow> Inl failed
         | Inr eng' \<Rightarrow> Inr (eng'\<lparr>src_ref := Some (sources @ toAdd)\<rparr>))"

definition addPlugin :: "engine \<Rightarrow> plugin \<Rightarrow> entity \<Rightarrow> engine" where
  "addPlugin eng p t =
     set_target eng t ((get_target eng t)\<lparr>plugins := Plugins_use (plugins (get_target eng t)) p\<rparr>)"

definition addMethod :: "engine \<Rightarrow> string \<Rightarrow> handler \<Rightarrow> entity \<Rightarrow> engine" where
  "addMethod eng name h t =
     (let wrappedHandler = (h, eid eng)
      in set_target eng t
           ((get_target eng t)\<lparr>methods := Methods_add (methods (get_target eng t)) (name, wrappedHandler)\<rparr>))"

definition setTransformer :: "engine \<Rightarrow> (jsval \<Rightarrow> jsval + jsval list) \<Rightarrow> engine" where
  "setTransformer eng f = eng\<lparr>transformer := f\<rparr>"

text \<open>
  Calls that other code makes on the engine while a parse is suspended. A call that throws
  leaves the engine as it was when it threw.
\<close>

datatype action =
    AddSrc src_arg
  | AddPlugin plugin entity
  | AddMethod string handler entity
  | SetTransformer "jsval \<Rightarrow> jsval + jsval list"

fun apply_action :: "collab \<Rightarrow> engine \<Rightarrow> action \<Rightarrow> engine" where
  "apply_action K eng (AddSrc a) =
     (case addSrc K eng a of Inl (err, eng') \<Rightarrow> eng' | Inr eng' \<Rightarrow> eng')"
| "apply_action K eng (AddPlugin p t) = addPlugin eng p t"
| "apply_action K eng (AddMethod name h t) = addMethod eng name h t"
| "apply_action K eng (SetTransformer f) = setTransformer eng f"

fun apply_actions :: "collab \<Rightarrow> engine \<Rightarrow> action list \<Rightarrow> engine" where
  "apply_actions K eng [] = eng"
| "apply_actions K eng (a # as) = apply_actions K (apply_action K eng a) as"

section \<open>Calling a collection method\<close>

text \<open>
  A call of the arrow function \<^verbatim>\<open>(...args) => handler(args, this.state, this)\<close>. An arrow
  function takes no \<^verbatim>\<open>this\<close> from its caller, so the \<^verbatim>\<open>this\<close> the call supplies is
  dropped; its own \<^verbatim>\<open>this\<close> is the engine of \<^verbatim>\<open>addMethod\<close>, and \<^verbatim>\<open>this.state\<close> runs
  the getter when the call is made: \<open>now\<close> is the engine object as it is at that moment.
  The handler is called as a plain function, so its own \<^verbatim>\<open>this\<close> is not the
  Collection: it is \<^verbatim>\<open>undefined\<close> (in strict code; the global object otherwise, which
  the model does not distinguish).
\<close>

definition call_wrapped :: "engine \<Rightarrow> wrapped \<Rightarrow> jsval \<Rightarrow> jsval list \<Rightarrow> jsval + jsval" where
  "call_wrapped now w this args = (case w of (h, e) \<Rightarrow> h JUndefined args (state now) e)"

text \<open>
  A call of a function found on the Collection \<open>c\<close>. A bound function calls its target
  with the \<^verbatim>\<open>this\<close> it was bound to. The Collection's own \<^verbatim>\<open>toArray\<close> is only ever
  found at the key \<^verbatim>\<open>toArray\<close> of the Collection, so it is called on \<open>c\<close>.
\<close>

fun call_fn :: "engine \<Rightarrow> collection \<Rightarrow> jsfun \<Rightarrow> jsval list \<Rightarrow> jsval + jsval" where
  "call_fn now c (BoundFn w this) args = call_wrapped now w this args"
| "call_fn now c ToArrayFn args = Inr (JArr (toArray c))"

text \<open>
  \<^verbatim>\<open>collection.k1.k2...(...args)\<close>, the call of what is found at the keys \<open>path\<close>;
  calling what is not there or is not a function is a TypeError.
\<close>

definition invoke :: "engine \<Rightarrow> collection \<Rightarrow> string list \<Rightarrow> jsval list \<Rightarrow> jsval + jsval" where
  "invoke now c path args =
     (case fn_at (props c) path of None \<Rightarrow> Inl TypeError | Some f \<Rightarrow> call_fn now c f args)"

section \<open>Parse\<close>

text \<open>
  \<^verbatim>\<open>mutate(data, target)\<close> in its two halves: the call
  \<^verbatim>\<open>target.plugins.process(data, this)\<close>, and, once that promise has resolved with
  \<open>items\<close>, the \<^verbatim>\<open>then\<close> callback, which builds the Collection, binds to it every method
  the target's registry holds at that moment and stores it as the target's state.
\<close>

definition mutate_process :: "engine \<Rightarrow> entity \<Rightarrow> jsval list \<Rightarrow> jsval + jsval list" where
  "mutate_process eng t data = process (plugins (get_target eng t)) data (eid eng)"

text \<open>
  \<^verbatim>\<open>_.set(collection, method.name, method.handler.bind(collection))\<close>: the name is cast
  to a path on the Collection as it is then, and the new bound function is assigned there.
\<close>

definition set_member :: "collab \<Rightarrow> collection \<Rightarrow> string \<Rightarrow> jsfun \<Rightarrow> collection" where
  "set_member K c name f =
     c\<lparr>props := set_in (props c) (castPath K name (props c name \<noteq> None)) (Node (Some f) Map.empty)\<rparr>"

definition bind_methods :: "collab \<Rightarrow> (string \<times> wrapped) list \<Rightarrow> collection \<Rightarrow> collection" where
  "bind_methods K ms c = foldl (\<lambda>c' (name, h). set_member K c' name (BoundFn h (view c'))) c ms"

definition mutate_then :: "collab \<Rightarrow> engine \<Rightarrow> entity \<Rightarrow> jsval list \<Rightarrow> engine \<times> collection" where
  "mutate_then K eng t items' =
     (let c = bind_methods K (methods (get_target eng t)) (Collection items')
      in (set_target eng t ((get_target eng t)\<lparr>tstate := Some c\<rparr>), c))"

text \<open>
  The points at which a parse is suspended and other code may run: while the read is
  pending, while the files pipeline runs, while the transformer's result is pending, and
  while the components pipeline runs. An \<open>interleave\<close> gives the calls made on the engine
  at each of them. Other parse calls on the same engine are not among them.
\<close>

record interleave =
  at_read :: "action list"
  in_files :: "action list"
  at_transform :: "action list"
  in_components :: "action list"

definition no_interleave :: interleave where
  "no_interleave = \<lparr>at_read = [], in_files = [], at_transform = [], in_components = []\<rparr>"

text \<open>
  The promise chain that starts at \<^verbatim>\<open>fs.readDir(this.src)\<close>, in two parts. In each,
  \<open>Inl\<close> is a failed step, with the failure and the engine as it is when the rejection
  reaches the \<^verbatim>\<open>catch\<close>.

  \<open>files_stage\<close> is \<^verbatim>\<open>fs.readDir(this.src).then(input => mutate(input || [], this.files))\<close>;
  \<open>eng\<close> is the engine at the call of \<^verbatim>\<open>readDir\<close>. When it succeeds it gives the engine
  with the files state published, and that Collection.
\<close>

definition files_stage :: "collab \<Rightarrow> engine \<Rightarrow> interleave \<Rightarrow> (jsval \<times> engine) + (engine \<times> collection)" where
  "files_stage K eng iv =
     (let e1 = apply_actions K eng (at_read iv)
      in case readDir K (src eng) of
           Inl err \<Rightarrow> Inl (err, e1)
         | Inr input \<Rightarrow>
           (let r1 = mutate_process e1 Files (case input of None \<Rightarrow> [] | Some d \<Rightarrow> d);
                e2 = apply_actions K e1 (in_files iv)
            in case r1 of
                 Inl err \<Rightarrow> Inl (err, e2)
               | Inr items1 \<Rightarrow> Inr (mutate_then K e2 Files items1)))"

text \<open>
  \<open>components_stage\<close> is
  \<^verbatim>\<open>.then(files => this.transformer(files.toArray())).then(output => mutate(output, this.components))\<close>,
  from the engine and the files Collection that the first part left. \<^verbatim>\<open>files.toArray()\<close>
  is a call of what the Collection has at the key \<^verbatim>\<open>toArray\<close> by then: its own method,
  or a files method of that name put over it. What that call returns goes to the
  transformer, and what it throws fails the step.
\<close>

definition components_stage :: "collab \<Rightarrow> engine \<Rightarrow> collection \<Rightarrow> interleave \<Rightarrow> (jsval \<times> engine) + engine" where
  "components_stage K e3 files' iv =
     (let r2 = (case invoke e3 files' [''toArray''] [] of
                  Inl err \<Rightarrow> Inl err
                | Inr fs \<Rightarrow> transformer e3 fs);
          e4 = apply_actions K e3 (at_transform iv)
      in case r2 of
           Inl err \<Rightarrow> Inl (err, e4)
         | Inr output \<Rightarrow>
           (let r3 = mutate_process e4 Components output;
                e5 = apply_actions K e4 (in_components iv)
            in case r3 of
                 Inl err \<Rightarrow> Inl (err, e5)
               | Inr items2 \<Rightarrow> Inr (fst (mutate_then K e5 Components items2))))"

definition parse_chain :: "collab \<Rightarrow> engine \<Rightarrow> interleave \<Rightarrow> (jsval \<times> engine) + engine" where
  "parse_chain K eng iv =
     (case files_stage K eng iv of
        Inl failed \<Rightarrow> Inl failed
      | Inr (e3, files') \<Rightarrow> components_stage K e3 files' iv)"

text \<open>
  The completion callback is called as \<^verbatim>\<open>callback(err)\<close> or as
  \<^verbatim>\<open>callback(null, components, files)\<close>, and may itself throw (\<open>Some\<close>). A run of
  \<^verbatim>\<open>parse(callback)\<close> is described by the engine it leaves, the calls it made to the
  callback in order, an exception thrown out of \<^verbatim>\<open>parse\<close> itself, and a rejection that
  nothing handles (the \<^verbatim>\<open>catch\<close> handler itself threw).
\<close>

datatype cb_args = CbErr jsval | CbOk "collection option" "collection option"

type_synonym callback = "cb_args \<Rightarrow> jsval option"

record run =
  result :: engine
  calls :: "cb_args list"
  thrown :: "jsval option"
  unhandled :: "jsval option"

text \<open>The handler \<^verbatim>\<open>err => { this.emit('error', err); callback(err); }\<close>.\<close>

definition on_catch :: "engine \<Rightarrow> callback \<Rightarrow> cb_args list \<Rightarrow> jsval \<Rightarrow> run" where
  "on_catch eng cb sofar err =
     (case emit eng (EvError err) of
        Inl x \<Rightarrow> \<lparr>result = eng, calls = sofar, thrown = None, unhandled = Some x\<rparr>
      | Inr eng' \<Rightarrow>
          \<lparr>result = eng', calls = sofar @ [CbErr err], thrown = None, unhandled = cb (CbErr err)\<rparr>)"

text \<open>
  The last \<^verbatim>\<open>then\<close>: it reads both states, emits \<^verbatim>\<open>parse.complete\<close> and calls the
  callback. It is inside the chain, so what it throws goes to the \<^verbatim>\<open>catch\<close> handler.
\<close>

definition on_complete :: "engine \<Rightarrow> callback \<Rightarrow> run" where
  "on_complete eng cb =
     (let c = tstate (components eng); f = tstate (files eng)
      in case emit eng (EvParseComplete c f) of
           Inl x \<Rightarrow> on_catch eng cb [] x
         | Inr eng' \<Rightarrow>
             (case cb (CbOk c f) of
                None \<Rightarrow> \<lparr>result = eng', calls = [CbOk c f], thrown = None, unhandled = None\<rparr>
              | Some x \<Rightarrow> on_catch eng' cb [CbOk c f] x))"

text \<open>
  \<^verbatim>\<open>parse(callback)\<close> with a callback (\<^verbatim>\<open>validate.callback\<close> rejects what is not a
  function, which the type excludes): \<^verbatim>\<open>parse.start\<close> is emitted, \<^verbatim>\<open>fs.readDir\<close> is
  called with the source list as it is then, and the chain runs to its last \<^verbatim>\<open>then\<close> or
  to its \<^verbatim>\<open>catch\<close>.
\<close>

definition parse_cb :: "collab \<Rightarrow> engine \<Rightarrow> callback \<Rightarrow> interleave \<Rightarrow> run" where
  "parse_cb K eng cb iv =
     (case emit eng EvParseStart of
        Inl x \<Rightarrow> \<lparr>result = eng, calls = [], thrown = Some x, unhandled = None\<rparr>
      | Inr e0 \<Rightarrow>
          (case parse_chain K e0 iv of
             Inl (err, e) \<Rightarrow> on_catch e cb [] err
           | Inr e \<Rightarrow> on_complete e cb))"

text \<open>
  \<^verbatim>\<open>parse()\<close> without a callback: a promise whose executor calls \<^verbatim>\<open>this.parse\<close> with
  \<^verbatim>\<open>(err, components, files) => { if (err) { return reject(err); } resolve({components, files}); }\<close>.
  That callback does not throw. A promise keeps its first settlement, and one that is never
  settled stays pending. In \<open>Resolved c f\<close> a component is \<open>Omitted\<close> when the callback
  got no such argument (it is \<^verbatim>\<open>undefined\<close>).
\<close>

datatype cb_val = Omitted | Passed "collection option"

datatype settled = Resolved cb_val cb_val | Rejected jsval | Pending

definition promise_callback :: callback where
  "promise_callback d = None"

fun settle :: "cb_args \<Rightarrow> settled" where
  "settle (CbErr err) = (if truthy err then Rejected err else Resolved Omitted Omitted)"
| "settle (CbOk c f) = Resolved (Passed c) (Passed f)"

definition parse_promise :: "collab \<Rightarrow> engine \<Rightarrow> interleave \<Rightarrow> settled \<times> run" where
  "parse_promise K eng iv =
     (let r = parse_cb K eng promise_callback iv
      in (case thrown r of
            Some x \<Rightarrow> Rejected x
          | None \<Rightarrow> (case calls r of [] \<Rightarrow> Pending | d # ds \<Rightarrow> settle d), r))"

definition parse :: "collab \<Rightarrow> engine \<Rightarrow> callback option \<Rightarrow> interleave \<Rightarrow> settled option \<times> run" where
  "parse K eng callback iv =
     (case callback of
        None \<Rightarrow> (case parse_promise K eng iv of (p, r) \<Rightarrow> (Some p, r))
      | Some cb \<Rightarrow> (None, parse_cb K eng cb iv))"

section \<open>Auxiliary notions and example inputs\<close>

text \<open>Two engines that differ at most in the events emitted.\<close>

definition logged :: "engine \<Rightarrow> engine \<Rightarrow> bool" where
  "logged eng eng' \<longleftrightarrow>
     eid eng' = eid eng \<and> src_ref eng' = src_ref eng \<and> files eng' = files eng \<and>
     components eng' = components eng \<and> transformer eng' = transformer eng \<and>
     listeners eng' = listeners eng"

text \<open>
  What a list of interleaved calls adds to a target: the plugins it registers on the
  target, the wrapped handlers it registers there (\<open>a\<close> is the engine's address), and
  the transformer it leaves in force, given the one before.
\<close>

fun added_plugins :: "entity \<Rightarrow> action list \<Rightarrow> plugin list" where
  "added_plugins t [] = []"
| "added_plugins t (AddPlugin p t' # as) =
     (if t' = t then p # added_plugins t as else added_plugins t as)"
| "added_plugins t (b # as) = added_plugins t as"

fun added_methods :: "nat \<Rightarrow> entity \<Rightarrow> action list \<Rightarrow> (string \<times> wrapped) list" where
  "added_methods a t [] = []"
| "added_methods a t (AddMethod name h t' # as) =
     (if t' = t then (name, (h, a)) # added_methods a t as else added_methods a t as)"
| "added_methods a t (b # as) = added_methods a t as"

fun last_transformer ::
  "(jsval \<Rightarrow> jsval + jsval list) \<Rightarrow> action list \<Rightarrow> jsval \<Rightarrow> jsval + jsval list" where
  "last_transformer f [] = f"
| "last_transformer f (SetTransformer g # as) = last_transformer g as"
| "last_transformer f (b # as) = last_transformer f as"

text \<open>
  An assignment at the path \<open>q\<close> replaces what is at the path \<open>p\<close> when \<open>q\<close> is \<open>p\<close> or
  leads to it. A method name can do so when one of the paths it may be cast to does; a
  registry entry, and a call that registers a method on target \<open>t\<close>, when its name can.
\<close>

definition overwrites :: "string list \<Rightarrow> string list \<Rightarrow> bool" where
  "overwrites q p \<longleftrightarrow> q \<noteq> [] \<and> prefix q p"

definition name_overwrites :: "collab \<Rightarrow> string \<Rightarrow> string list \<Rightarrow> bool" where
  "name_overwrites K n p \<longleftrightarrow> overwrites (castPath K n True) p \<or> overwrites (castPath K n False) p"




text \<open>
  Every wrapper in the two registries holds the address of this engine, as those that
  \<^verbatim>\<open>addMethod\<close> stores do.
\<close>

definition own_refs :: "engine \<Rightarrow> bool" where
  "own_refs eng \<longleftrightarrow>
     list_all (\<lambda>(n, w). snd w = eid eng) (methods (files eng)) \<and>
     list_all (\<lambda>(n, w). snd w = eid eng) (methods (components eng))"


text \<open>
  What happens to an engine between its construction and a parse: configuration calls,
  subscriptions through the inherited \<^verbatim>\<open>on\<close>, and earlier parses, each with its own
  reader, callback and interleaved calls, one after the other. \<open>step_calls\<close> are the
  configuration calls a step may make, and a step can overwrite a path on a target when
  one of them does.
\<close>

definition all_calls :: "interleave \<Rightarrow> action list" where
  "all_calls iv = at_read iv @ in_files iv @ at_transform iv @ in_components iv"

datatype step = Call action | Listen string | Parse collab callback interleave

fun run_steps :: "collab \<Rightarrow> engine \<Rightarrow> step list \<Rightarrow> engine" where
  "run_steps K eng [] = eng"
| "run_steps K eng (Call b # ss) = run_steps K (apply_action K eng b) ss"
| "run_steps K eng (Listen name # ss) = run_steps K (on eng name) ss"
| "run_steps K eng (Parse K' cb iv # ss) = run_steps K (result (parse_cb K' eng cb iv)) ss"

fun step_calls :: "step \<Rightarrow> action list" where
  "step_calls (Call b) = [b]"
| "step_calls (Listen name) = []"
| "step_calls (Parse K' cb iv) = all_calls iv"


text \<open>An interleaving with calls made only while the read is pending.\<close>

definition read_interleave :: "action list \<Rightarrow> interleave" where
  "read_interleave as = \<lparr>at_read = as, in_files = [], at_transform = [], in_components = []\<rparr>"

text \<open>
  Collaborators for the examples: a reader that finds the given records whatever the
  paths, paths that are already normal, a check that accepts every path, and names cast
  to paths as lodash casts a name made of word characters and dots: one key when the
  object has a property of that name, the name split at its dots otherwise. The second is
  the same with a reader whose promise rejects with the given value.
\<close>

definition example_collab :: "jsval list \<Rightarrow> collab" where
  "example_collab input =
     \<lparr>readDir = (\<lambda>paths. Inr (Some input)),
      normalizePaths = (\<lambda>a. case a of Path p \<Rightarrow> [p] | Paths ps \<Rightarrow> ps),
      validate_src = (\<lambda>p. None),
      castPath = (\<lambda>name present. if present then [name] else split_at CHR ''.'' name)\<rparr>"

definition unreadable_collab :: "jsval \<Rightarrow> collab" where
  "unreadable_collab err = (example_collab [])\<lparr>readDir := (\<lambda>paths. Inl err)\<rparr>"

text \<open>
  The pass-through transformer
  \<^verbatim>\<open>files => { if (!Array.isArray(files)) throw new TypeError(); return files; }\<close>; a plugin
  that throws \<^verbatim>\<open>Error('boom')\<close>; a plugin whose promise rejects with no reason
  (\<^verbatim>\<open>Promise.reject()\<close>); a plugin whose promise rejects with \<^verbatim>\<open>0\<close>; a plugin that
  appends a record.
\<close>

definition pass_through :: "jsval \<Rightarrow> jsval + jsval list" where
  "pass_through fs = (case fs of JArr xs \<Rightarrow> Inr xs | _ \<Rightarrow> Inl TypeError)"

definition boom :: plugin where
  "boom records engineRef = Inl (JError ''boom'')"

definition reject_undefined :: plugin where
  "reject_undefined records engineRef = Inl JUndefined"

definition reject_zero :: plugin where
  "reject_zero records engineRef = Inl (JNum 0)"

definition mark :: plugin where
  "mark records engineRef = Inr (records @ [JStr ''late''])"

text \<open>
  Handlers: \<^verbatim>\<open>(args, state) => state.toArray().length\<close>,
  \<^verbatim>\<open>(args, state) => state.components.toArray().length\<close>, \<^verbatim>\<open>(args, state) => state\<close>
  and \<^verbatim>\<open>() => []\<close>.
\<close>

definition count_toArray :: handler where
  "count_toArray this args st engineRef =
     (case call_toArray st of Inl err \<Rightarrow> Inl err | Inr arr \<Rightarrow> get_prop arr ''length'')"

definition count_components :: handler where
  "count_components this args st engineRef =
     (case get_prop st ''components'' of
        Inl err \<Rightarrow> Inl err
      | Inr c \<Rightarrow> (case call_toArray c of Inl err \<Rightarrow> Inl err | Inr arr \<Rightarrow> get_prop arr ''length''))"

definition peek :: handler where
  "peek this args st engineRef = Inr st"

definition nothing :: handler where
  "nothing this args st engineRef = Inr (JArr [])"

text \<open>A callback that returns, and one that throws when it is given a result.\<close>

definition quiet :: callback where
  "quiet d = None"

definition throw_on_success :: callback where
  "throw_on_success d = (case d of CbOk c f \<Rightarrow> Some (JError ''in callback'') | CbErr err \<Rightarrow> None)"

text \<open>
  Engines: \<^verbatim>\<open>new Fractal()\<close> with the pass-through transformer set; the same with the
  method \<^verbatim>\<open>peek\<close> registered on the components target; and the same with a method
  \<^verbatim>\<open>toArray\<close> registered on the files target.
\<close>

definition plain_engine :: engine where
  "plain_engine = setTransformer (Fractal 0) pass_through"

definition peek_engine :: engine where
  "peek_engine = addMethod plain_engine ''peek'' peek Components"

definition shadowing_engine :: engine where
  "shadowing_engine = addMethod plain_engine ''toArray'' nothing Files"

definition two_records :: "jsval list" where
  "two_records = [JObj [(''id'', JNum 1)], JObj [(''id'', JNum 2)]]"

text \<open>
  An engine that has completed a parse of \<open>two_records\<close> and then got a components
  plugin that throws, or one whose promise rejects with \<^verbatim>\<open>0\<close>.
\<close>

definition failing_engine :: engine where
  "failing_engine =
     addPlugin (result (parse_cb (example_collab two_records) plain_engine quiet no_interleave))
       boom Components"

definition zero_engine :: engine where
  "zero_engine =
     addPlugin (result (parse_cb (example_collab two_records) plain_engine quiet no_interleave))
       reject_zero Components"

text \<open>
  Two parses in a row on \<open>peek_engine\<close>, the first finding one record and the second
  two; the components Collection that the first one publishes; and the engine of the first
  parse at the moment its components methods are bound (nothing is interleaved, so it is
  the engine that the files stage left).
\<close>

definition first_run :: run where
  "first_run = parse_cb (example_collab [JNum 1]) peek_engine quiet no_interleave"

definition second_run :: run where
  "second_run = parse_cb (example_collab [JNum 1, JNum 2]) (result first_run) quiet no_interleave"

definition first_components :: collection where
  "first_components =
     set_member (example_collab [JNum 1]) (Collection [JNum 1]) ''peek''
       (BoundFn (peek, 0) (JCollection [JNum 1]))"

definition bind_time_engine :: engine where
  "bind_time_engine =
     fst (projr (files_stage (example_collab [JNum 1])
                   (projr (emit peek_engine EvParseStart)) no_interleave))"

text \<open>
  A parse of three records on an engine with the method \<^verbatim>\<open>count\<close> of the components
  target registered with the handler \<^verbatim>\<open>(args, state) => state.toArray().length\<close>, and
  the components Collection it publishes.
\<close>

definition count_run :: run where
  "count_run = parse_cb (example_collab [JNum 1, JNum 2, JNum 3])
     (addMethod plain_engine ''count'' count_toArray Components) quiet no_interleave"

definition count_collection :: collection where
  "count_collection =
     set_member (example_collab [JNum 1, JNum 2, JNum 3]) (Collection [JNum 1, JNum 2, JNum 3]) ''count''
       (BoundFn (count_toArray, 0) (JCollection [JNum 1, JNum 2, JNum 3]))"

lemmas run_defs = parse_def parse_promise_def parse_cb_def parse_chain_def files_stage_def
  components_stage_def emit_def heard_def on_catch_def on_complete_def no_interleave_def
  example_collab_def unreadable_collab_def Fractal_def on_def addPlugin_def addMethod_def
  setTransformer_def get_target_def set_target_def Plugins_use_def Methods_add_def
  guarded_key_def mutate_process_def mutate_then_def bind_methods_def set_member_def Collection_def view_def
  toArray_def src_def Let_def promise_callback_def pass_through_def plain_engine_def
  peek_engine_def shadowing_engine_def two_records_def quiet_def throw_on_success_def boom_def
  reject_undefined_def reject_zero_def invoke_def fn_at_def call_wrapped_def state_def
  state_slot_def peek_def nothing_def read_interleave_def mark_def count_toArray_def
  count_components_def TypeError_def first_run_def second_run_def first_components_def
  bind_time_engine_def count_run_def count_collection_def failing_engine_def zero_engine_def

section \<open>Configuration calls and published state\<close>

lemma logged_refl: "logged eng eng"
  by (simp add: logged_def)

lemma logged_trans: "logged a b \<Longrightarrow> logged b c \<Longrightarrow> logged a c"
  by (simp add: logged_def)

lemma logged_log: "logged eng (log eng m)"
  by (simp add: logged_def log_def emit_def)

lemma addSrc_each_Inr: "addSrc_each K eng ps = Inr eng' \<Longrightarrow> logged eng eng'"
proof (induction ps arbitrary: eng)
  case Nil
  then show ?case by (simp add: logged_refl)
next
  case (Cons p ps)
  show ?case
  proof (cases "validate_src K p")
    case None
    with Cons.prems have "addSrc_each K (log eng (''Adding src: '' @ p)) ps = Inr eng'" by simp
    from Cons.IH [OF this] show ?thesis by (rule logged_trans [OF logged_log])
  next
    case (Some err)
    with Cons.prems show ?thesis by simp
  qed
qed

lemma addSrc_each_Inl: "addSrc_each K eng ps = Inl (err, eng') \<Longrightarrow> logged eng eng'"
proof (induction ps arbitrary: eng)
  case Nil
  then show ?case by simp
next
  case (Cons p ps)
  show ?case
  proof (cases "validate_src K p")
    case None
    with Cons.prems have "addSrc_each K (log eng (''Adding src: '' @ p)) ps = Inl (err, eng')" by simp
    from Cons.IH [OF this] show ?thesis by (rule logged_trans [OF logged_log])
  next
    case (Some x)
    with Cons.prems show ?thesis by (simp add: logged_refl)
  qed
qed

lemma addSrc_each_valid:
  "\<forall>p \<in> set ps. validate_src K p = None \<Longrightarrow> \<exists>eng'. addSrc_each K eng ps = Inr eng'"
  by (induction ps arbitrary: eng) auto

lemma addSrc_fields:
  "eid (apply_action K eng (AddSrc a)) = eid eng \<and>
   files (apply_action K eng (AddSrc a)) = files eng \<and>
   components (apply_action K eng (AddSrc a)) = components eng \<and>
   transformer (apply_action K eng (AddSrc a)) = transformer eng \<and>
   listeners (apply_action K eng (AddSrc a)) = listeners eng"
proof (cases "addSrc_each K eng (normalizePaths K a)")
  case (Inl failed)
  obtain err e where "failed = (err, e)" by (cases failed)
  with Inl addSrc_each_Inl [of K eng "normalizePaths K a" err e] show ?thesis
    by (simp add: addSrc_def logged_def)
next
  case (Inr e)
  with addSrc_each_Inr [of K eng "normalizePaths K a" e] show ?thesis
    by (simp add: addSrc_def logged_def)
qed

lemma apply_action_fixed:
  "eid (apply_action K eng a) = eid eng \<and>
   listeners (apply_action K eng a) = listeners eng \<and>
   tstate (files (apply_action K eng a)) = tstate (files eng) \<and>
   tstate (components (apply_action K eng a)) = tstate (components eng)"
proof (cases a)
  case (AddSrc x)
  then show ?thesis using addSrc_fields [of K eng x] by simp
next
  case (AddPlugin p t)
  then show ?thesis by (cases t) (simp_all add: addPlugin_def get_target_def set_target_def)
next
  case (AddMethod n h t)
  then show ?thesis by (cases t) (simp_all add: addMethod_def get_target_def set_target_def)
next
  case (SetTransformer f)
  then show ?thesis by (simp add: setTransformer_def)
qed

lemma apply_actions_fixed:
  "eid (apply_actions K eng as) = eid eng \<and>
   listeners (apply_actions K eng as) = listeners eng \<and>
   tstate (files (apply_actions K eng as)) = tstate (files eng) \<and>
   tstate (components (apply_actions K eng as)) = tstate (components eng)"
proof (induction as arbitrary: eng)
  case Nil
  show ?case by simp
next
  case (Cons a as)
  show ?case using Cons.IH [of "apply_action K eng a"] apply_action_fixed [of K eng a] by simp
qed

section \<open>The source list\<close>

text \<open>
  Claim C9, as the code has it. The source list is an ordered list of path strings that
  grows by appending: when every normalized path of the argument passes the check,
  \<^verbatim>\<open>addSrc\<close> returns and the new list is the old list followed by those paths, in the
  order given. The list is not deduplicated: a path that is already there is appended
  again.
\<close>

theorem addSrc_appends:
  assumes "\<forall>p \<in> set (normalizePaths K a). validate_src K p = None"
  shows "\<exists>eng'. addSrc K eng a = Inr eng' \<and> src eng' = src eng @ normalizePaths K a"
proof -
  from addSrc_each_valid [OF assms] obtain e
    where "addSrc_each K eng (normalizePaths K a) = Inr e" by blast
  then show ?thesis by (simp add: addSrc_def src_def Let_def)
qed

theorem addSrc_appends_witness:
  "\<exists>eng'. addSrc (example_collab []) (Fractal 0) (Paths [''b'', ''a'']) = Inr eng'
     \<and> src eng' = src (Fractal 0) @ [''b'', ''a'']"
  using addSrc_appends [of "example_collab []" "Paths [''b'', ''a'']" "Fractal 0"]
  by (simp add: example_collab_def)

text \<open>
  Claim C9 as stated fails: adding the path \<^verbatim>\<open>a\<close> to a list that already holds it
  leaves the list with the path twice.
\<close>

theorem addSrc_duplicate:
  "src (apply_actions (example_collab []) (Fractal 0) [AddSrc (Path ''a'')]) = [''a''] \<and>
   addSrc (example_collab []) (apply_actions (example_collab []) (Fractal 0) [AddSrc (Path ''a'')])
       (Path ''a'')
     = Inr (apply_actions (example_collab []) (Fractal 0) [AddSrc (Path ''a''), AddSrc (Path ''a'')]) \<and>
   src (apply_actions (example_collab []) (Fractal 0) [AddSrc (Path ''a''), AddSrc (Path ''a'')])
     = [''a'', ''a'']"
  by (simp add: addSrc_def example_collab_def Fractal_def on_def src_def log_def emit_def)


section \<open>Targets, emitted events and bound methods\<close>

lemma get_target_simps [simp]:
  "get_target eng Files = files eng" "get_target eng Components = components eng"
  by (simp_all add: get_target_def)

lemma heard_error: "''error'' \<in> set ls \<Longrightarrow> heard ls ''error''"
  unfolding heard_def list_ex_iff by (rule bexI [of _ "''error''"]) simp_all

lemma emit_start: "emit eng EvParseStart = Inr (eng\<lparr>emitted := emitted eng @ [EvParseStart]\<rparr>)"
  by (simp add: emit_def)

lemma emit_complete:
  "emit eng (EvParseComplete c f) = Inr (eng\<lparr>emitted := emitted eng @ [EvParseComplete c f]\<rparr>)"
  by (simp add: emit_def)

lemma started_fixed:
  assumes "emit eng EvParseStart = Inr e0"
  shows "e0 = eng\<lparr>emitted := emitted eng @ [EvParseStart]\<rparr>"
  using assms by (simp add: emit_def)

lemma src_emitted [simp]: "src (eng\<lparr>emitted := evs\<rparr>) = src eng"
  by (simp add: src_def)

lemma get_target_emitted [simp]: "get_target (eng\<lparr>emitted := evs\<rparr>) t = get_target eng t"
  by (cases t) simp_all

text \<open>Assignments and reads along paths.\<close>

lemma get_in_empty [simp]: "get_in Map.empty p = None"
  by (cases "(Map.empty :: string \<Rightarrow> node option, p)" rule: get_in.cases) simp_all

lemma fn_at_empty [simp]: "fn_at Map.empty p = None"
  by (simp add: fn_at_def)

lemma fn_at_Nil [simp]: "fn_at ps [] = None"
  by (simp add: fn_at_def)



lemma fn_at_set_in_other:
  "\<not> overwrites q p \<Longrightarrow> fn_at (set_in ps q v) p = fn_at ps p"
proof (induction ps q v arbitrary: p rule: set_in.induct)
  case (1 ps v)
  show ?case by simp
next
  case (2 ps k v)
  show ?case
  proof (cases p)
    case Nil
    then show ?thesis by simp
  next
    case (Cons a r)
    with 2 have "a \<noteq> k" by (simp add: overwrites_def)
    then show ?thesis unfolding Cons by (cases r) (simp_all add: fn_at_def)
  qed
next
  case (3 ps k k' ks v)
  show ?case
  proof (cases p)
    case Nil
    then show ?thesis by simp
  next
    case (Cons a r)
    show ?thesis
    proof (cases "guarded_key k \<or> a \<noteq> k")
      case True
      then show ?thesis unfolding Cons by (cases r) (auto simp add: fn_at_def)
    next
      case False
      then have g: "\<not> guarded_key k" and a: "a = k" by simp_all
      show ?thesis
      proof (cases r)
        case Nil
        then show ?thesis
          unfolding Cons a using g by (cases "ps k") (auto simp add: fn_at_def split: node.splits)
      next
        case r: (Cons b r')
        from 3(3) have no: "\<not> overwrites (k' # ks) (b # r')"
          unfolding Cons a r by (simp add: overwrites_def)
        show ?thesis
        proof (cases "ps k")
          case None
          have "fn_at (set_in Map.empty (k' # ks) v) (b # r') = fn_at Map.empty (b # r')"
            using 3(1) [OF g None no] .
          then show ?thesis
            unfolding Cons a r using g None by (simp add: fn_at_def)
        next
          case (Some n)
          obtain f cs where n: "n = Node f cs" by (cases n)
          have "fn_at (set_in cs (k' # ks) v) (b # r') = fn_at cs (b # r')"
            using 3(2) [OF g Some n no] .
          then show ?thesis
            unfolding Cons a r using g Some n by (simp add: fn_at_def)
        qed
      qed
    qed
  qed
qed


text \<open>What binding the methods of a registry does to a Collection.\<close>

lemma set_member_fixed [simp]:
  "items (set_member K c n f) = items c" "view (set_member K c n f) = view c"
  by (simp_all add: view_def set_member_def)

lemma bind_methods_snoc:
  "bind_methods K (ms @ [(n, w)]) c = set_member K (bind_methods K ms c) n (BoundFn w (view (bind_methods K ms c)))"
  by (simp add: bind_methods_def)

lemma bind_methods_fixed [simp]:
  "items (bind_methods K ms c) = items c" "view (bind_methods K ms c) = view c"
proof -
  have "items (bind_methods K ms c) = items c \<and> view (bind_methods K ms c) = view c"
  proof (induction ms rule: rev_induct)
    case Nil
    show ?case by (simp add: bind_methods_def)
  next
    case (snoc m ms)
    obtain n w where m: "m = (n, w)" by (cases m)
    show ?case unfolding m bind_methods_snoc using snoc by simp
  qed
  then show "items (bind_methods K ms c) = items c" "view (bind_methods K ms c) = view c"
    by simp_all
qed

lemma view_Collection [simp]: "view (Collection xs) = JCollection xs" "items (Collection xs) = xs"
  by (simp_all add: view_def Collection_def)

lemma toArray_bind_methods [simp]: "toArray (bind_methods K ms (Collection xs)) = xs"
  by (simp add: toArray_def)

lemma fn_at_Collection: "fn_at (props (Collection xs)) p = Some f \<longleftrightarrow> p = [''toArray''] \<and> f = ToArrayFn"
proof (cases p)
  case Nil
  then show ?thesis by simp
next
  case (Cons a r)
  then show ?thesis by (cases r) (auto simp add: fn_at_def Collection_def)
qed


text \<open>
  A method stays where it was assigned while no later entry of the registry has a name
  that overwrites its path.
\<close>

lemma fn_at_set_member_other:
  "\<not> name_overwrites K n p \<Longrightarrow> fn_at (props (set_member K c n f)) p = fn_at (props c) p"
  unfolding set_member_def name_overwrites_def
  by (cases "props c n \<noteq> None") (simp_all add: fn_at_set_in_other)


lemma fn_at_bind_methods_other:
  "list_all (\<lambda>(n, w). \<not> name_overwrites K n p) ms \<Longrightarrow>
     fn_at (props (bind_methods K ms c)) p = fn_at (props c) p"
proof (induction ms rule: rev_induct)
  case Nil
  show ?case by (simp add: bind_methods_def)
next
  case (snoc m ms)
  obtain n w where m: "m = (n, w)" by (cases m)
  from snoc.prems have "\<not> name_overwrites K n p" and "list_all (\<lambda>(n, w). \<not> name_overwrites K n p) ms"
    by (simp_all add: m)
  then show ?case
    unfolding m bind_methods_snoc using snoc.IH by (simp add: fn_at_set_member_other)
qed




section \<open>What interleaved calls change\<close>

lemma get_target_AddSrc: "get_target (apply_action K eng (AddSrc a)) t = get_target eng t"
  using addSrc_fields [of K eng a] by (cases t) simp_all

lemma apply_action_config:
  "plugins (get_target (apply_action K eng b) t) = plugins (get_target eng t) @ added_plugins t [b] \<and>
   methods (get_target (apply_action K eng b) t) = methods (get_target eng t) @ added_methods (eid eng) t [b] \<and>
   transformer (apply_action K eng b) = last_transformer (transformer eng) [b]"
proof (cases b)
  case (AddSrc x)
  then show ?thesis
    using addSrc_fields [of K eng x] get_target_AddSrc [of K eng x t] by simp
next
  case (AddPlugin p t')
  then show ?thesis
    by (cases t; cases t') (simp_all add: addPlugin_def set_target_def Plugins_use_def)
next
  case (AddMethod n h t')
  then show ?thesis
    by (cases t; cases t') (simp_all add: addMethod_def set_target_def Methods_add_def Let_def)
next
  case (SetTransformer f)
  then show ?thesis by (cases t) (simp_all add: setTransformer_def)
qed

lemma added_plugins_Cons: "added_plugins t (b # as) = added_plugins t [b] @ added_plugins t as"
  by (cases b) simp_all

lemma added_methods_Cons: "added_methods a t (b # as) = added_methods a t [b] @ added_methods a t as"
  by (cases b) simp_all

lemma last_transformer_Cons: "last_transformer f (b # as) = last_transformer (last_transformer f [b]) as"
  by (cases b) simp_all

lemma apply_actions_config:
  "plugins (get_target (apply_actions K eng as) t) = plugins (get_target eng t) @ added_plugins t as \<and>
   methods (get_target (apply_actions K eng as) t) = methods (get_target eng t) @ added_methods (eid eng) t as \<and>
   transformer (apply_actions K eng as) = last_transformer (transformer eng) as"
proof (induction as arbitrary: eng)
  case Nil
  show ?case by simp
next
  case (Cons b as)
  have e: "eid (apply_action K eng b) = eid eng" using apply_action_fixed [of K eng b] by simp
  show ?case
    using Cons.IH [of "apply_action K eng b"] apply_action_config [of K eng b t]
    by (simp add: e added_plugins_Cons [of t b as] added_methods_Cons [of "eid eng" t b as]
        last_transformer_Cons [of "transformer eng" b as])
qed

lemma apply_actions_append:
  "apply_actions K eng (as @ bs) = apply_actions K (apply_actions K eng as) bs"
  by (induction as arbitrary: eng) simp_all

lemma added_plugins_append: "added_plugins t (as @ bs) = added_plugins t as @ added_plugins t bs"
  by (induction t as rule: added_plugins.induct) simp_all

lemma added_methods_append: "added_methods a t (as @ bs) = added_methods a t as @ added_methods a t bs"
  by (induction a t as rule: added_methods.induct) simp_all





lemma Fractal_listens: "''error'' \<in> set (listeners (Fractal a))"
  by (simp add: Fractal_def on_def)


lemma own_refs_Fractal: "own_refs (Fractal a)"
  by (simp add: own_refs_def Fractal_def on_def)

section \<open>The two stages of the chain\<close>

lemma files_stage_Inr:
  assumes "files_stage K eng iv = Inr (e3, fc)"
  shows "\<exists>input items1. readDir K (src eng) = Inr input \<and>
     process (plugins (files eng) @ added_plugins Files (at_read iv))
       (case input of None \<Rightarrow> [] | Some d \<Rightarrow> d) (eid eng) = Inr items1 \<and>
     fc = bind_methods K (methods (files eng) @ added_methods (eid eng) Files (at_read iv @ in_files iv))
            (Collection items1) \<and>
     e3 = (apply_actions K eng (at_read iv @ in_files iv))
            \<lparr>files := (files (apply_actions K eng (at_read iv @ in_files iv)))\<lparr>tstate := Some fc\<rparr>\<rparr>"
proof -
  let ?e1 = "apply_actions K eng (at_read iv)"
  let ?e2 = "apply_actions K eng (at_read iv @ in_files iv)"
  have e2: "apply_actions K ?e1 (in_files iv) = ?e2" by (simp add: apply_actions_append)
  have p1: "plugins (files ?e1) = plugins (files eng) @ added_plugins Files (at_read iv)"
    using apply_actions_config [of K eng "at_read iv" Files] by simp
  have m2: "methods (files ?e2) =
      methods (files eng) @ added_methods (eid eng) Files (at_read iv @ in_files iv)"
    using apply_actions_config [of K eng "at_read iv @ in_files iv" Files] by simp
  have id1: "eid ?e1 = eid eng" using apply_actions_fixed [of K eng "at_read iv"] by simp
  from assms obtain input where rd: "readDir K (src eng) = Inr input"
    by (cases "readDir K (src eng)") (simp_all add: files_stage_def Let_def)
  from assms rd obtain items1 where
    pr: "mutate_process ?e1 Files (case input of None \<Rightarrow> [] | Some d \<Rightarrow> d) = Inr items1"
    by (cases "mutate_process ?e1 Files (case input of None \<Rightarrow> [] | Some d \<Rightarrow> d)")
      (simp_all add: files_stage_def Let_def)
  from assms rd pr have res: "mutate_then K ?e2 Files items1 = (e3, fc)"
    by (simp add: files_stage_def Let_def e2)
  from pr have "process (plugins (files eng) @ added_plugins Files (at_read iv))
       (case input of None \<Rightarrow> [] | Some d \<Rightarrow> d) (eid eng) = Inr items1"
    by (simp add: mutate_process_def p1 id1)
  moreover from res have "fc = bind_methods K (methods (files eng) @ added_methods (eid eng) Files (at_read iv @ in_files iv))
            (Collection items1)"
    by (simp add: mutate_then_def Let_def m2)
  moreover from res have "e3 = ?e2\<lparr>files := (files ?e2)\<lparr>tstate := Some fc\<rparr>\<rparr>"
    by (auto simp: mutate_then_def Let_def set_target_def)
  ultimately show ?thesis using rd by blast
qed

lemma files_stage_published:
  assumes "files_stage K eng iv = Inr (e3, fc)"
  shows "tstate (files e3) = Some fc \<and> tstate (components e3) = tstate (components eng) \<and>
     listeners e3 = listeners eng \<and> eid e3 = eid eng \<and>
     plugins (components e3) = plugins (components eng) @ added_plugins Components (at_read iv @ in_files iv) \<and>
     methods (components e3) = methods (components eng) @ added_methods (eid eng) Components (at_read iv @ in_files iv) \<and>
     methods (files e3) = methods (files eng) @ added_methods (eid eng) Files (at_read iv @ in_files iv) \<and>
     transformer e3 = last_transformer (transformer eng) (at_read iv @ in_files iv)"
proof -
  let ?e2 = "apply_actions K eng (at_read iv @ in_files iv)"
  from files_stage_Inr [OF assms]
  have e3: "e3 = ?e2\<lparr>files := (files ?e2)\<lparr>tstate := Some fc\<rparr>\<rparr>" by blast
  show ?thesis
    using apply_actions_fixed [of K eng "at_read iv @ in_files iv"]
      apply_actions_config [of K eng "at_read iv @ in_files iv" Components]
      apply_actions_config [of K eng "at_read iv @ in_files iv" Files]
    by (simp add: e3)
qed

lemma files_stage_Inl:
  assumes "files_stage K eng iv = Inl (err, e)"
  shows "tstate (files e) = tstate (files eng) \<and> tstate (components e) = tstate (components eng) \<and>
     listeners e = listeners eng \<and> eid e = eid eng \<and>
     (\<exists>as. set as \<subseteq> set (at_read iv @ in_files iv) \<and> e = apply_actions K eng as)"
proof -
  let ?e1 = "apply_actions K eng (at_read iv)"
  let ?e2 = "apply_actions K eng (at_read iv @ in_files iv)"
  have e2: "apply_actions K ?e1 (in_files iv) = ?e2" by (simp add: apply_actions_append)
  from assms have "e = ?e1 \<or> e = ?e2"
    by (auto simp: files_stage_def Let_def e2 split: sum.splits)
  then show ?thesis
  proof
    assume e: "e = ?e1"
    have "set (at_read iv) \<subseteq> set (at_read iv @ in_files iv)" by simp
    with e have "\<exists>as. set as \<subseteq> set (at_read iv @ in_files iv) \<and> e = apply_actions K eng as"
      by blast
    then show ?thesis using apply_actions_fixed [of K eng "at_read iv"] e by simp
  next
    assume e: "e = ?e2"
    then have "\<exists>as. set as \<subseteq> set (at_read iv @ in_files iv) \<and> e = apply_actions K eng as"
      by blast
    then show ?thesis using apply_actions_fixed [of K eng "at_read iv @ in_files iv"] e by simp
  qed
qed

lemma components_stage_Inl:
  assumes "components_stage K e3 fc iv = Inl (err, e)"
  shows "tstate (files e) = tstate (files e3) \<and> tstate (components e) = tstate (components e3) \<and>
     listeners e = listeners e3 \<and> eid e = eid e3 \<and>
     (\<exists>as. set as \<subseteq> set (at_transform iv @ in_components iv) \<and> e = apply_actions K e3 as)"
proof -
  let ?e4 = "apply_actions K e3 (at_transform iv)"
  let ?e5 = "apply_actions K e3 (at_transform iv @ in_components iv)"
  have e5: "apply_actions K ?e4 (in_components iv) = ?e5" by (simp add: apply_actions_append)
  from assms have "e = ?e4 \<or> e = ?e5"
    by (auto simp: components_stage_def Let_def e5 split: sum.splits)
  then show ?thesis
  proof
    assume e: "e = ?e4"
    have "set (at_transform iv) \<subseteq> set (at_transform iv @ in_components iv)" by simp
    with e have "\<exists>as. set as \<subseteq> set (at_transform iv @ in_components iv) \<and> e = apply_actions K e3 as"
      by blast
    then show ?thesis using apply_actions_fixed [of K e3 "at_transform iv"] e by simp
  next
    assume e: "e = ?e5"
    then have "\<exists>as. set as \<subseteq> set (at_transform iv @ in_components iv) \<and> e = apply_actions K e3 as"
      by blast
    then show ?thesis
      using apply_actions_fixed [of K e3 "at_transform iv @ in_components iv"] e by simp
  qed
qed

lemma components_stage_Inr:
  assumes "components_stage K e3 fc iv = Inr e'"
  shows "\<exists>v output items2. invoke e3 fc [''toArray''] [] = Inr v \<and> transformer e3 v = Inr output \<and>
     process (plugins (components e3) @ added_plugins Components (at_transform iv)) output (eid e3)
       = Inr items2 \<and>
     tstate (components e') = Some (bind_methods K
        (methods (components e3) @ added_methods (eid e3) Components (at_transform iv @ in_components iv))
        (Collection items2)) \<and>
     tstate (files e') = tstate (files e3) \<and> listeners e' = listeners e3 \<and> eid e' = eid e3 \<and>
     methods (files e') = methods (files e3) @ added_methods (eid e3) Files (at_transform iv @ in_components iv) \<and>
     methods (components e') =
       methods (components e3) @ added_methods (eid e3) Components (at_transform iv @ in_components iv)"
proof -
  let ?e4 = "apply_actions K e3 (at_transform iv)"
  let ?e5 = "apply_actions K e3 (at_transform iv @ in_components iv)"
  have e5: "apply_actions K ?e4 (in_components iv) = ?e5" by (simp add: apply_actions_append)
  have p4: "plugins (components ?e4) = plugins (components e3) @ added_plugins Components (at_transform iv)"
    using apply_actions_config [of K e3 "at_transform iv" Components] by simp
  have m5: "methods (components ?e5) =
      methods (components e3) @ added_methods (eid e3) Components (at_transform iv @ in_components iv)"
    using apply_actions_config [of K e3 "at_transform iv @ in_components iv" Components] by simp
  have m5f: "methods (files ?e5) =
      methods (files e3) @ added_methods (eid e3) Files (at_transform iv @ in_components iv)"
    using apply_actions_config [of K e3 "at_transform iv @ in_components iv" Files] by simp
  have id4: "eid ?e4 = eid e3" using apply_actions_fixed [of K e3 "at_transform iv"] by simp
  from assms obtain v where ta: "invoke e3 fc [''toArray''] [] = Inr v"
    by (cases "invoke e3 fc [''toArray''] []") (simp_all add: components_stage_def Let_def)
  from assms ta obtain out where tr: "transformer e3 v = Inr out"
    by (cases "transformer e3 v") (simp_all add: components_stage_def Let_def)
  from assms ta tr obtain items2 where pr: "mutate_process ?e4 Components out = Inr items2"
    by (cases "mutate_process ?e4 Components out") (simp_all add: components_stage_def Let_def)
  from assms ta tr pr have res: "e' = fst (mutate_then K ?e5 Components items2)"
    by (simp add: components_stage_def Let_def e5)
  from pr have "process (plugins (components e3) @ added_plugins Components (at_transform iv)) out (eid e3)
       = Inr items2"
    by (simp add: mutate_process_def p4 id4)
  moreover have "tstate (components e') = Some (bind_methods K
        (methods (components e3) @ added_methods (eid e3) Components (at_transform iv @ in_components iv))
        (Collection items2))"
    by (simp add: res mutate_then_def Let_def set_target_def m5)
  moreover have "tstate (files e') = tstate (files e3) \<and> listeners e' = listeners e3 \<and> eid e' = eid e3"
    using apply_actions_fixed [of K e3 "at_transform iv @ in_components iv"]
    by (simp add: res mutate_then_def Let_def set_target_def)
  moreover have "methods (files e') = methods (files e3) @ added_methods (eid e3) Files (at_transform iv @ in_components iv)"
    using m5f by (simp add: res mutate_then_def Let_def set_target_def)
  moreover have "methods (components e') =
       methods (components e3) @ added_methods (eid e3) Components (at_transform iv @ in_components iv)"
    using m5 by (simp add: res mutate_then_def Let_def set_target_def)
  ultimately show ?thesis using ta tr by blast
qed

text \<open>
  \<^verbatim>\<open>files.toArray()\<close> gives the records of the files Collection unless a files method
  was put over the Collection's own \<^verbatim>\<open>toArray\<close>.
\<close>

lemma toArray_unshadowed:
  assumes "list_all (\<lambda>(n, w). \<not> name_overwrites K n [''toArray'']) ms"
  shows "invoke now (bind_methods K ms (Collection xs)) [''toArray''] [] = Inr (JArr xs)"
proof -
  have "fn_at (props (Collection xs)) [''toArray''] = Some ToArrayFn"
    by (simp add: fn_at_Collection)
  then have "fn_at (props (bind_methods K ms (Collection xs))) [''toArray''] = Some ToArrayFn"
    by (simp add: fn_at_bind_methods_other [OF assms])
  then show ?thesis by (simp add: invoke_def)
qed

section \<open>Completion and failure of a run\<close>

lemma on_catch_listened:
  "heard (listeners e) ''error'' \<Longrightarrow>
   on_catch e cb sofar err =
     \<lparr>result = e\<lparr>emitted := emitted e @ [EvError err]\<rparr>, calls = sofar @ [CbErr err],
      thrown = None, unhandled = cb (CbErr err)\<rparr>"
  by (simp add: on_catch_def emit_def)

lemma result_on_catch: "logged eng (result (on_catch eng cb sofar err))"
  by (simp add: on_catch_def emit_def logged_def)

lemma result_on_complete: "logged eng (result (on_complete eng cb))"
  by (simp add: on_complete_def on_catch_def emit_def logged_def Let_def split: option.splits)

lemma logged_target: "logged eng eng' \<Longrightarrow> get_target eng' t = get_target eng t"
  by (cases t) (simp_all add: logged_def)

lemma parse_cb_failed:
  assumes "emit eng EvParseStart = Inr e0" and "parse_chain K e0 iv = Inl (err, e)"
  shows "parse_cb K eng cb iv = on_catch e cb [] err"
  using assms by (simp add: parse_cb_def)

lemma parse_cb_completed:
  assumes "emit eng EvParseStart = Inr e0" and "parse_chain K e0 iv = Inr e"
  shows "parse_cb K eng cb iv = on_complete e cb"
  using assms by (simp add: parse_cb_def)

lemma thrown_parse_cb: "thrown (parse_cb K eng cb iv) = None"
  by (simp add: parse_cb_def emit_start on_catch_def on_complete_def Let_def emit_def
      split: sum.splits option.splits prod.splits)

lemma first_call_independent:
  "take 1 (calls (parse_cb K eng cb iv)) = take 1 (calls (parse_cb K eng cb' iv)) \<and>
   tstate (files (result (parse_cb K eng cb iv))) = tstate (files (result (parse_cb K eng cb' iv))) \<and>
   tstate (components (result (parse_cb K eng cb iv))) = tstate (components (result (parse_cb K eng cb' iv)))"
  by (simp add: parse_cb_def emit_start on_catch_def on_complete_def Let_def emit_def
      split: sum.splits option.splits prod.splits)

text \<open>
  The promise form is the callback form with a callback that returns: the promise is
  settled by the first call.
\<close>

lemma parse_promise_settled:
  assumes "calls (parse_cb K eng promise_callback iv) = d # ds"
  shows "fst (parse K eng None iv) = Some (settle d) \<and>
         snd (parse K eng None iv) = parse_cb K eng promise_callback iv"
  using assms by (simp add: parse_def parse_promise_def Let_def thrown_parse_cb)

text \<open>
  Where a failure of the chain comes from: the read, a files plugin, the call
  \<^verbatim>\<open>files.toArray()\<close>, the transformer, a components plugin.
\<close>

lemma files_stage_fails_iff:
  "(\<exists>e. files_stage K eng iv = Inl (err, e)) \<longleftrightarrow>
     readDir K (src eng) = Inl err \<or>
     (\<exists>input. readDir K (src eng) = Inr input \<and>
        mutate_process (apply_actions K eng (at_read iv)) Files
          (case input of None \<Rightarrow> [] | Some d \<Rightarrow> d) = Inl err)"
  by (auto simp: files_stage_def Let_def split: sum.splits)

lemma components_stage_fails_iff:
  "(\<exists>e. components_stage K e3 fc iv = Inl (err, e)) \<longleftrightarrow>
     invoke e3 fc [''toArray''] [] = Inl err \<or>
     (\<exists>v. invoke e3 fc [''toArray''] [] = Inr v \<and> transformer e3 v = Inl err) \<or>
     (\<exists>v out. invoke e3 fc [''toArray''] [] = Inr v \<and> transformer e3 v = Inr out \<and>
        mutate_process (apply_actions K e3 (at_transform iv)) Components out = Inl err)"
  by (auto simp: components_stage_def Let_def split: sum.splits)

lemma parse_chain_fails_iff:
  "(\<exists>e. parse_chain K eng iv = Inl (err, e)) \<longleftrightarrow>
     (\<exists>e. files_stage K eng iv = Inl (err, e)) \<or>
     (\<exists>e3 fc e. files_stage K eng iv = Inr (e3, fc) \<and> components_stage K e3 fc iv = Inl (err, e))"
  by (auto simp: parse_chain_def split: sum.splits)

lemma parse_chain_fixed:
  assumes "parse_chain K e0 iv = Inl (err, e) \<or> parse_chain K e0 iv = Inr e"
  shows "listeners e = listeners e0 \<and> eid e = eid e0"
proof (cases "files_stage K e0 iv")
  case (Inl failed)
  with assms have "files_stage K e0 iv = Inl (err, e)" by (auto simp: parse_chain_def)
  from files_stage_Inl [OF this] show ?thesis by simp
next
  case (Inr ok)
  obtain e3 fc where ok: "ok = (e3, fc)" by (cases ok)
  have pub: "listeners e3 = listeners e0 \<and> eid e3 = eid e0"
    using files_stage_published [of K e0 iv e3 fc] Inr ok by simp
  from assms Inr ok
  have "components_stage K e3 fc iv = Inl (err, e) \<or> components_stage K e3 fc iv = Inr e"
    by (simp add: parse_chain_def)
  then show ?thesis
  proof
    assume "components_stage K e3 fc iv = Inl (err, e)"
    from components_stage_Inl [OF this] pub show ?thesis by simp
  next
    assume "components_stage K e3 fc iv = Inr e"
    from components_stage_Inr [OF this] pub show ?thesis by auto
  qed
qed

text \<open>The registries after the chain: what they held, and what interleaved calls added.\<close>

lemma parse_chain_registry:
  assumes "parse_chain K e0 iv = Inl (err, e) \<or> parse_chain K e0 iv = Inr e"
  shows "\<exists>as. set as \<subseteq> set (all_calls iv) \<and>
     (\<forall>t. methods (get_target e t) = methods (get_target e0 t) @ added_methods (eid e0) t as)"
proof (cases "files_stage K e0 iv")
  case (Inl failed)
  with assms have "files_stage K e0 iv = Inl (err, e)" by (auto simp: parse_chain_def)
  from files_stage_Inl [OF this] obtain as where
    as: "set as \<subseteq> set (at_read iv @ in_files iv)" and e: "e = apply_actions K e0 as" by blast
  have "\<forall>t. methods (get_target e t) = methods (get_target e0 t) @ added_methods (eid e0) t as"
    unfolding e using apply_actions_config [of K e0 as] by simp
  moreover have "set as \<subseteq> set (all_calls iv)" using as by (auto simp: all_calls_def)
  ultimately show ?thesis by blast
next
  case (Inr ok)
  obtain e3 fc where ok: "ok = (e3, fc)" by (cases ok)
  let ?a = "at_read iv @ in_files iv"
  have fs: "files_stage K e0 iv = Inr (e3, fc)" using Inr ok by simp
  have pub: "\<forall>t. methods (get_target e3 t) = methods (get_target e0 t) @ added_methods (eid e0) t ?a"
  proof
    fix t
    show "methods (get_target e3 t) = methods (get_target e0 t) @ added_methods (eid e0) t ?a"
      using files_stage_published [OF fs] by (cases t) simp_all
  qed
  have id: "eid e3 = eid e0" using files_stage_published [OF fs] by simp
  from assms Inr ok
  have "components_stage K e3 fc iv = Inl (err, e) \<or> components_stage K e3 fc iv = Inr e"
    by (simp add: parse_chain_def)
  then obtain bs where bs: "set bs \<subseteq> set (at_transform iv @ in_components iv)"
    and m: "\<forall>t. methods (get_target e t) = methods (get_target e3 t) @ added_methods (eid e3) t bs"
  proof
    assume "components_stage K e3 fc iv = Inl (err, e)"
    from components_stage_Inl [OF this] obtain bs where
      b: "set bs \<subseteq> set (at_transform iv @ in_components iv)" and e: "e = apply_actions K e3 bs"
      by blast
    have "\<forall>t. methods (get_target e t) = methods (get_target e3 t) @ added_methods (eid e3) t bs"
      unfolding e using apply_actions_config [of K e3 bs] by simp
    with b show ?thesis using that by blast
  next
    assume cs: "components_stage K e3 fc iv = Inr e"
    have "\<forall>t. methods (get_target e t) =
        methods (get_target e3 t) @ added_methods (eid e3) t (at_transform iv @ in_components iv)"
    proof
      fix t
      show "methods (get_target e t) =
        methods (get_target e3 t) @ added_methods (eid e3) t (at_transform iv @ in_components iv)"
        using components_stage_Inr [OF cs] by (cases t) auto
    qed
    then show ?thesis using that [of "at_transform iv @ in_components iv"] by blast
  qed
  have "\<forall>t. methods (get_target e t) = methods (get_target e0 t) @ added_methods (eid e0) t (?a @ bs)"
    using m pub by (simp add: id added_methods_append)
  moreover have "set (?a @ bs) \<subseteq> set (all_calls iv)" using bs by (auto simp: all_calls_def)
  ultimately show ?thesis by blast
qed



text \<open>
  Without a listener that hears \<^verbatim>\<open>error\<close> the emission in the \<^verbatim>\<open>catch\<close> handler throws:
  the callback is never called and the rejection is left unhandled.
\<close>

lemma unheard_failure:
  assumes "\<not> heard (listeners eng) ''error''"
    and "emit eng EvParseStart = Inr e0"
    and "parse_chain K e0 iv = Inl (err, e)"
  shows "calls (parse_cb K eng cb iv) = [] \<and>
         unhandled (parse_cb K eng cb iv) = Some (uncaught (EvError err))"
proof -
  have e0: "e0 = eng\<lparr>emitted := emitted eng @ [EvParseStart]\<rparr>"
    using assms(2) by (rule started_fixed)
  have "listeners e = listeners e0" using parse_chain_fixed [of K e0 iv err e] assms(3) by simp
  with assms(1) have ls: "\<not> heard (listeners e) ''error''" by (simp add: e0)
  show ?thesis
    using ls by (simp add: parse_cb_failed [OF assms(2,3)] on_catch_def emit_def)
qed

text \<open>What a parse leaves of the engine it was called on.\<close>

lemma parse_cb_outcome:
  "\<exists>err e. (parse_chain K (eng\<lparr>emitted := emitted eng @ [EvParseStart]\<rparr>) iv = Inl (err, e) \<or>
            parse_chain K (eng\<lparr>emitted := emitted eng @ [EvParseStart]\<rparr>) iv = Inr e) \<and>
           logged e (result (parse_cb K eng cb iv))"
proof (cases "parse_chain K (eng\<lparr>emitted := emitted eng @ [EvParseStart]\<rparr>) iv")
  case (Inl failed)
  obtain err e where f: "failed = (err, e)" by (cases failed)
  have "logged e (result (parse_cb K eng cb iv))"
    by (simp add: parse_cb_failed [OF emit_start Inl [unfolded f]] result_on_catch)
  then show ?thesis using Inl f by blast
next
  case (Inr e)
  have "logged e (result (parse_cb K eng cb iv))"
    by (simp add: parse_cb_completed [OF emit_start Inr] result_on_complete)
  then show ?thesis using Inr by blast
qed

lemma parse_keeps_listeners: "listeners (result (parse_cb K eng cb iv)) = listeners eng"
proof -
  from parse_cb_outcome [of K eng iv cb] obtain err e where
    ch: "parse_chain K (eng\<lparr>emitted := emitted eng @ [EvParseStart]\<rparr>) iv = Inl (err, e) \<or>
         parse_chain K (eng\<lparr>emitted := emitted eng @ [EvParseStart]\<rparr>) iv = Inr e"
    and l: "logged e (result (parse_cb K eng cb iv))" by blast
  from parse_chain_fixed [OF ch] l show ?thesis by (simp add: logged_def)
qed

lemma parse_cb_registry:
  "\<exists>as. set as \<subseteq> set (all_calls iv) \<and>
     (\<forall>t. methods (get_target (result (parse_cb K eng cb iv)) t)
            = methods (get_target eng t) @ added_methods (eid eng) t as) \<and>
     eid (result (parse_cb K eng cb iv)) = eid eng"
proof -
  from parse_cb_outcome [of K eng iv cb] obtain err e where
    ch: "parse_chain K (eng\<lparr>emitted := emitted eng @ [EvParseStart]\<rparr>) iv = Inl (err, e) \<or>
         parse_chain K (eng\<lparr>emitted := emitted eng @ [EvParseStart]\<rparr>) iv = Inr e"
    and l: "logged e (result (parse_cb K eng cb iv))" by blast
  from parse_chain_registry [OF ch] obtain as where as: "set as \<subseteq> set (all_calls iv)"
    and m: "\<forall>t. methods (get_target e t) = methods (get_target eng t) @ added_methods (eid eng) t as"
    by auto
  have "\<forall>t. methods (get_target (result (parse_cb K eng cb iv)) t)
            = methods (get_target eng t) @ added_methods (eid eng) t as"
    using m logged_target [OF l] by simp
  moreover have "eid (result (parse_cb K eng cb iv)) = eid eng"
    using parse_chain_fixed [OF ch] l by (simp add: logged_def)
  ultimately show ?thesis using as by blast
qed

text \<open>
  An engine after any number of configuration calls, subscriptions and parses: the
  registries have only grown, by what those steps registered, and no listener is gone.
\<close>

lemma run_steps_registry:
  "\<exists>as. set as \<subseteq> (\<Union>s \<in> set steps. set (step_calls s)) \<and>
     (\<forall>t. methods (get_target (run_steps K eng steps) t)
            = methods (get_target eng t) @ added_methods (eid eng) t as) \<and>
     eid (run_steps K eng steps) = eid eng \<and>
     set (listeners eng) \<subseteq> set (listeners (run_steps K eng steps))"
proof (induction steps arbitrary: eng)
  case Nil
  have "\<forall>t. methods (get_target eng t) = methods (get_target eng t) @ added_methods (eid eng) t []"
    by simp
  then show ?case by (intro exI [of _ "[]"]) simp
next
  case (Cons s steps)
  have "\<exists>e1 bs. run_steps K eng (s # steps) = run_steps K e1 steps \<and> set bs \<subseteq> set (step_calls s) \<and>
      (\<forall>t. methods (get_target e1 t) = methods (get_target eng t) @ added_methods (eid eng) t bs) \<and>
      eid e1 = eid eng \<and> set (listeners eng) \<subseteq> set (listeners e1)"
  proof (cases s)
    case (Call b)
    have "\<forall>t. methods (get_target (apply_action K eng b) t)
        = methods (get_target eng t) @ added_methods (eid eng) t [b]"
      using apply_action_config [of K eng b] by simp
    then show ?thesis
      using apply_action_fixed [of K eng b] unfolding Call
      by (intro exI [of _ "apply_action K eng b"] exI [of _ "[b]"]) simp
  next
    case (Listen name)
    have "\<forall>t. methods (get_target (on eng name) t) = methods (get_target eng t) @ added_methods (eid eng) t []"
    proof
      fix t
      show "methods (get_target (on eng name) t) = methods (get_target eng t) @ added_methods (eid eng) t []"
        by (cases t) (simp_all add: on_def)
    qed
    then show ?thesis
      unfolding Listen by (intro exI [of _ "on eng name"] exI [of _ "[]"]) (auto simp add: on_def)
  next
    case (Parse K' cb iv)
    from parse_cb_registry [of iv K' eng cb] obtain bs where
      "set bs \<subseteq> set (all_calls iv)"
      "\<forall>t. methods (get_target (result (parse_cb K' eng cb iv)) t)
            = methods (get_target eng t) @ added_methods (eid eng) t bs"
      "eid (result (parse_cb K' eng cb iv)) = eid eng" by blast
    then show ?thesis
      unfolding Parse
      by (intro exI [of _ "result (parse_cb K' eng cb iv)"] exI [of _ bs])
        (simp add: parse_keeps_listeners)
  qed
  then obtain e1 bs where r: "run_steps K eng (s # steps) = run_steps K e1 steps"
    and bs: "set bs \<subseteq> set (step_calls s)"
    and m1: "\<forall>t. methods (get_target e1 t) = methods (get_target eng t) @ added_methods (eid eng) t bs"
    and id1: "eid e1 = eid eng" and l1: "set (listeners eng) \<subseteq> set (listeners e1)"
    by blast
  from Cons.IH [of e1] obtain as where as: "set as \<subseteq> (\<Union>s \<in> set steps. set (step_calls s))"
    and m: "\<forall>t. methods (get_target (run_steps K e1 steps) t)
            = methods (get_target e1 t) @ added_methods (eid e1) t as"
    and id: "eid (run_steps K e1 steps) = eid e1"
    and l: "set (listeners e1) \<subseteq> set (listeners (run_steps K e1 steps))" by blast
  have "\<forall>t. methods (get_target (run_steps K eng (s # steps)) t)
            = methods (get_target eng t) @ added_methods (eid eng) t (bs @ as)"
    unfolding r using m m1 by (simp add: id1 added_methods_append)
  moreover have "set (bs @ as) \<subseteq> (\<Union>s \<in> set (s # steps). set (step_calls s))"
    using bs as by auto
  moreover have "eid (run_steps K eng (s # steps)) = eid eng" unfolding r using id id1 by simp
  moreover have "set (listeners eng) \<subseteq> set (listeners (run_steps K eng (s # steps)))"
    unfolding r using l l1 by blast
  ultimately show ?case by blast
qed



lemma run_steps_listens: "''error'' \<in> set (listeners (run_steps K (Fractal a) steps))"
  using run_steps_registry [of steps K "Fractal a"] Fractal_listens [of a] by blast

section \<open>Identity round trip\<close>




section \<open>Failure of the components stage\<close>

text \<open>
  Claim C2, as the code has it. Take a parse on an engine with a listener that hears
  \<^verbatim>\<open>error\<close> (the constructor installs one and neither a configuration call nor a parse
  removes it, see \<open>run_steps_listens\<close>), whose files stage published the Collection \<open>fc\<close>
  and whose components stage (the call \<^verbatim>\<open>files.toArray()\<close>, the transformer or a
  components plugin, see \<open>components_stage_fails_iff\<close>) then failed with \<open>err\<close>. With a
  callback, the callback is called once, as \<^verbatim>\<open>callback(err)\<close> with that failure and no
  result, after the \<^verbatim>\<open>error\<close> event. Without a callback, the promise rejects with \<open>err\<close>
  when \<open>err\<close> is truthy, and resolves to an object whose \<^verbatim>\<open>components\<close> and \<^verbatim>\<open>files\<close> are
  \<^verbatim>\<open>undefined\<close> when it is falsy. In both forms \<^verbatim>\<open>files.state\<close> is still \<open>fc\<close>, and
  \<^verbatim>\<open>components.state\<close> is what it was before the parse. This holds whatever
  configuration calls are interleaved with the parse.
\<close>

theorem components_failure_keeps_files:
  assumes "heard (listeners eng) ''error''"
    and "emit eng EvParseStart = Inr e0"
    and "files_stage K e0 iv = Inr (e3, fc)"
    and "components_stage K e3 fc iv = Inl (err, e)"
  shows "calls (parse_cb K eng cb iv) = [CbErr err] \<and>
         thrown (parse_cb K eng cb iv) = None \<and>
         emitted (result (parse_cb K eng cb iv)) = emitted e @ [EvError err] \<and>
         tstate (files (result (parse_cb K eng cb iv))) = Some fc \<and>
         tstate (components (result (parse_cb K eng cb iv))) = tstate (components eng) \<and>
         fst (parse K eng None iv) =
           Some (if truthy err then Rejected err else Resolved Omitted Omitted) \<and>
         tstate (files (result (snd (parse K eng None iv)))) = Some fc \<and>
         tstate (components (result (snd (parse K eng None iv)))) = tstate (components eng)"
proof -
  have e0: "e0 = eng\<lparr>emitted := emitted eng @ [EvParseStart]\<rparr>"
    using assms(2) by (rule started_fixed)
  have chain: "parse_chain K e0 iv = Inl (err, e)"
    using assms(3,4) by (simp add: parse_chain_def)
  have pub: "tstate (files e3) = Some fc \<and> tstate (components e3) = tstate (components e0) \<and>
     listeners e3 = listeners e0"
    using files_stage_published [OF assms(3)] by simp
  have kept: "tstate (files e) = tstate (files e3) \<and> tstate (components e) = tstate (components e3) \<and>
     listeners e = listeners e3"
    using components_stage_Inl [OF assms(4)] by simp
  have ls: "heard (listeners e) ''error''"
    using assms(1) pub kept by (simp add: e0)
  have run: "parse_cb K eng c iv =
      \<lparr>result = e\<lparr>emitted := emitted e @ [EvError err]\<rparr>, calls = [CbErr err],
       thrown = None, unhandled = c (CbErr err)\<rparr>" for c
    by (simp add: parse_cb_failed [OF assms(2) chain] on_catch_listened [OF ls])
  have pr: "fst (parse K eng None iv) = Some (settle (CbErr err)) \<and>
      snd (parse K eng None iv) = parse_cb K eng promise_callback iv"
    by (rule parse_promise_settled [of K eng iv "CbErr err" "[]"]) (simp add: run)
  show ?thesis
    using pub kept pr by (simp add: run e0)
qed

theorem components_failure_keeps_files_witness:
  "calls (parse_cb (example_collab [JNum 7]) failing_engine quiet no_interleave)
     = [CbErr (JError ''boom'')] \<and>
   fst (parse (example_collab [JNum 7]) failing_engine None no_interleave)
     = Some (Rejected (JError ''boom'')) \<and>
   map_option toArray (tstate (files (result (parse_cb (example_collab [JNum 7]) failing_engine quiet
       no_interleave)))) = Some [JNum 7] \<and>
   map_option toArray (tstate (components failing_engine)) = Some two_records \<and>
   map_option toArray (tstate (components (result (parse_cb (example_collab [JNum 7]) failing_engine quiet
       no_interleave)))) = Some two_records"
proof -
  let ?K = "example_collab [JNum 7]"
  let ?e0 = "projr (emit failing_engine EvParseStart)"
  let ?fs = "projr (files_stage ?K ?e0 no_interleave)"
  let ?cs = "projl (components_stage ?K (fst ?fs) (snd ?fs) no_interleave)"
  have 1: "heard (listeners failing_engine) ''error''" by (simp add: run_defs)
  have 2: "emit failing_engine EvParseStart = Inr ?e0" by (simp add: run_defs)
  have 3: "files_stage ?K ?e0 no_interleave = Inr (fst ?fs, snd ?fs)"
    by (simp add: run_defs)
  have 4: "components_stage ?K (fst ?fs) (snd ?fs) no_interleave = Inl (fst ?cs, snd ?cs)"
    by (simp add: run_defs)
  from components_failure_keeps_files [OF 1 2 3 4, of quiet] show ?thesis
    by (simp add: run_defs)
qed

text \<open>
  Claim C2 as stated fails for the promise form when the failure is a falsy value. A
  components plugin whose promise rejects with \<^verbatim>\<open>0\<close> makes the callback form call
  \<^verbatim>\<open>callback(0)\<close>, but the promise form, which tests \<^verbatim>\<open>if (err)\<close>, resolves: the
  rejection channel does not receive the failure.
\<close>

theorem falsy_components_failure_resolves:
  "calls (parse_cb (example_collab [JNum 7]) zero_engine quiet no_interleave) = [CbErr (JNum 0)] \<and>
   fst (parse (example_collab [JNum 7]) zero_engine None no_interleave)
     = Some (Resolved Omitted Omitted)"
  by (simp add: run_defs)

section \<open>Failures and the error event\<close>

text \<open>
  Claim C8, as the code has it. The constructor installs a listener for \<^verbatim>\<open>error\<close>, and
  configuration calls, further subscriptions and parses keep it. So on an engine built by
  the constructor, whatever was done with it since, every failure of the chain (the read,
  a plugin of either target, the call \<^verbatim>\<open>files.toArray()\<close> or the transformer, see
  \<open>parse_chain_fails_iff\<close>) is caught: \<^verbatim>\<open>parse\<close> throws nothing, the \<^verbatim>\<open>error\<close> event is
  emitted and its emission returns. With a callback the failure reaches the caller through
  one call \<^verbatim>\<open>callback(err)\<close> and in no other way, and the only rejection that can be left
  unhandled is what that callback itself throws. Without a callback nothing is left
  unhandled, and the promise rejects with \<open>err\<close> when \<open>err\<close> is truthy; when it is falsy
  the promise resolves to an object whose \<^verbatim>\<open>components\<close> and \<^verbatim>\<open>files\<close> are
  \<^verbatim>\<open>undefined\<close>.
\<close>

theorem failure_reaches_callback:
  assumes "eng = run_steps K0 (Fractal a) steps"
    and "emit eng EvParseStart = Inr e0"
    and "parse_chain K e0 iv = Inl (err, e)"
  shows "''error'' \<in> set (listeners (Fractal a)) \<and> ''error'' \<in> set (listeners eng) \<and>
         thrown (parse_cb K eng cb iv) = None \<and>
         emitted (result (parse_cb K eng cb iv)) = emitted e @ [EvError err] \<and>
         calls (parse_cb K eng cb iv) = [CbErr err] \<and>
         unhandled (parse_cb K eng cb iv) = cb (CbErr err) \<and>
         fst (parse K eng None iv) =
           Some (if truthy err then Rejected err else Resolved Omitted Omitted) \<and>
         thrown (snd (parse K eng None iv)) = None \<and>
         unhandled (snd (parse K eng None iv)) = None \<and>
         emitted (result (snd (parse K eng None iv))) = emitted e @ [EvError err]"
proof -
  have l: "''error'' \<in> set (listeners eng)" unfolding assms(1) by (rule run_steps_listens)
  have e0: "e0 = eng\<lparr>emitted := emitted eng @ [EvParseStart]\<rparr>"
    using assms(2) by (rule started_fixed)
  have "listeners e = listeners e0" using parse_chain_fixed [of K e0 iv err e] assms(3) by simp
  with l have "''error'' \<in> set (listeners e)" by (simp add: e0)
  then have ls: "heard (listeners e) ''error''" by (rule heard_error)
  have run: "parse_cb K eng c iv =
      \<lparr>result = e\<lparr>emitted := emitted e @ [EvError err]\<rparr>, calls = [CbErr err],
       thrown = None, unhandled = c (CbErr err)\<rparr>" for c
    by (simp add: parse_cb_failed [OF assms(2,3)] on_catch_listened [OF ls])
  have pr: "fst (parse K eng None iv) = Some (settle (CbErr err)) \<and>
      snd (parse K eng None iv) = parse_cb K eng promise_callback iv"
    by (rule parse_promise_settled [of K eng iv "CbErr err" "[]"]) (simp add: run)
  show ?thesis
    using l pr Fractal_listens [of a] by (simp add: run promise_callback_def)
qed

theorem failure_reaches_callback_witness:
  "''error'' \<in> set (listeners (run_steps (example_collab two_records) (Fractal 0)
      [Parse (example_collab two_records) quiet no_interleave, Call (AddPlugin boom Files)])) \<and>
   thrown (parse_cb (example_collab two_records) (run_steps (example_collab two_records) (Fractal 0)
      [Parse (example_collab two_records) quiet no_interleave, Call (AddPlugin boom Files)])
      quiet no_interleave) = None \<and>
   emitted (result (parse_cb (example_collab two_records) (run_steps (example_collab two_records) (Fractal 0)
      [Parse (example_collab two_records) quiet no_interleave, Call (AddPlugin boom Files)])
      quiet no_interleave))
     = [EvParseStart, EvParseComplete (Some (Collection [])) (Some (Collection two_records)),
        EvParseStart, EvError (JError ''boom'')] \<and>
   calls (parse_cb (example_collab two_records) (run_steps (example_collab two_records) (Fractal 0)
      [Parse (example_collab two_records) quiet no_interleave, Call (AddPlugin boom Files)])
      quiet no_interleave)
     = [CbErr (JError ''boom'')] \<and>
   fst (parse (example_collab two_records) (run_steps (example_collab two_records) (Fractal 0)
      [Parse (example_collab two_records) quiet no_interleave, Call (AddPlugin boom Files)])
      None no_interleave)
     = Some (Rejected (JError ''boom''))"
proof -
  let ?K = "example_collab two_records"
  let ?eng = "run_steps ?K (Fractal 0)
      [Parse ?K quiet no_interleave, Call (AddPlugin boom Files)]"
  let ?e0 = "projr (emit ?eng EvParseStart)"
  let ?ch = "projl (parse_chain ?K ?e0 no_interleave)"
  have 1: "?eng = run_steps ?K (Fractal 0)
      [Parse ?K quiet no_interleave, Call (AddPlugin boom Files)]" by simp
  have 2: "emit ?eng EvParseStart = Inr ?e0" by (simp add: run_defs)
  have 3: "parse_chain ?K ?e0 no_interleave = Inl (fst ?ch, snd ?ch)" by (simp add: run_defs)
  from failure_reaches_callback [OF 1 2 3, of quiet] show ?thesis
    by (simp add: run_defs)
qed

text \<open>
  Claim C8 as stated fails for the promise form when the failure is a falsy value. A read
  whose promise rejects with \<^verbatim>\<open>null\<close> makes the callback form call
  \<^verbatim>\<open>callback(null)\<close>, and the promise form resolves instead of rejecting: the failure
  does not come out of the promise's error channel.
\<close>

theorem falsy_read_failure_resolves:
  "readDir (unreadable_collab JNull) (src (Fractal 0)) = Inl JNull \<and>
   calls (parse_cb (unreadable_collab JNull) (Fractal 0) quiet no_interleave) = [CbErr JNull] \<and>
   emitted (result (parse_cb (unreadable_collab JNull) (Fractal 0) quiet no_interleave))
     = [EvParseStart, EvError JNull] \<and>
   fst (parse (unreadable_collab JNull) (Fractal 0) None no_interleave)
     = Some (Resolved Omitted Omitted)"
  by (simp add: run_defs)

section \<open>A callback that throws\<close>

text \<open>
  Claim C10. When both states have been published and the callback throws \<open>x\<close> on the call
  \<^verbatim>\<open>callback(null, components, files)\<close>, the \<^verbatim>\<open>catch\<close> handler emits \<^verbatim>\<open>error\<close> with
  \<open>x\<close> and calls the same callback again, as \<^verbatim>\<open>callback(x)\<close>: the callback is called
  twice in that parse.
\<close>

theorem throwing_callback_called_twice:
  assumes "''error'' \<in> set (listeners eng)"
    and "emit eng EvParseStart = Inr e0"
    and "parse_chain K e0 iv = Inr e"
    and "cb (CbOk (tstate (components e)) (tstate (files e))) = Some x"
  shows "calls (parse_cb K eng cb iv) = [CbOk (tstate (components e)) (tstate (files e)), CbErr x] \<and>
         length (calls (parse_cb K eng cb iv)) = 2 \<and>
         emitted (result (parse_cb K eng cb iv)) =
           emitted e @ [EvParseComplete (tstate (components e)) (tstate (files e)), EvError x] \<and>
         tstate (components (result (parse_cb K eng cb iv))) = tstate (components e) \<and>
         tstate (files (result (parse_cb K eng cb iv))) = tstate (files e) \<and>
         tstate (components e) \<noteq> None \<and> tstate (files e) \<noteq> None"
proof -
  have e0: "e0 = eng\<lparr>emitted := emitted eng @ [EvParseStart]\<rparr>"
    using assms(2) by (rule started_fixed)
  have "listeners e = listeners e0" using parse_chain_fixed [of K e0 iv undefined e] assms(3) by simp
  with assms(1) have ls: "''error'' \<in> set (listeners e)" by (simp add: e0)
  from assms(3) obtain e3 fc where fs: "files_stage K e0 iv = Inr (e3, fc)"
    and cs: "components_stage K e3 fc iv = Inr e"
    by (cases "files_stage K e0 iv") (auto simp: parse_chain_def)
  have pub: "tstate (components e) \<noteq> None \<and> tstate (files e) \<noteq> None"
    using components_stage_Inr [OF cs] files_stage_published [OF fs] by auto
  have ls': "heard (listeners (e\<lparr>emitted := emitted e @
      [EvParseComplete (tstate (components e)) (tstate (files e))]\<rparr>)) ''error''"
    using heard_error [OF ls] by simp
  show ?thesis
    using pub assms(4)
    by (simp add: parse_cb_completed [OF assms(2,3)] on_complete_def Let_def emit_complete
        on_catch_listened [OF ls'])
qed

theorem throwing_callback_called_twice_witness:
  "calls (parse_cb (example_collab [JNum 1]) plain_engine throw_on_success no_interleave)
     = [CbOk (Some (Collection [JNum 1])) (Some (Collection [JNum 1])),
        CbErr (JError ''in callback'')] \<and>
   length (calls (parse_cb (example_collab [JNum 1]) plain_engine throw_on_success no_interleave)) = 2"
proof -
  let ?K = "example_collab [JNum 1]"
  let ?e0 = "projr (emit plain_engine EvParseStart)"
  let ?fin = "projr (parse_chain ?K ?e0 no_interleave)"
  have 1: "''error'' \<in> set (listeners plain_engine)" by (simp add: run_defs)
  have 2: "emit plain_engine EvParseStart = Inr ?e0" by (simp add: run_defs)
  have 3: "parse_chain ?K ?e0 no_interleave = Inr ?fin" by (simp add: run_defs)
  have 4: "throw_on_success (CbOk (tstate (components ?fin)) (tstate (files ?fin))) = Some (JError ''in callback'')"
    by (simp add: throw_on_success_def)
  from throwing_callback_called_twice [where cb = throw_on_success, OF 1 2 3 4] show ?thesis
    by (simp add: run_defs)
qed

section \<open>The two calling conventions\<close>

text \<open>
  Claim C3, as the code has it. For the same collaborators, engine and interleaving,
  \<^verbatim>\<open>parse()\<close> without a callback returns a promise that is settled by the first call
  which \<^verbatim>\<open>parse(callback)\<close> makes to its callback, whatever that callback is: it
  resolves to \<^verbatim>\<open>{components, files}\<close> when the call is
  \<^verbatim>\<open>callback(null, components, files)\<close>; when the call is \<^verbatim>\<open>callback(err)\<close> it rejects
  with \<open>err\<close> if \<open>err\<close> is truthy, as every Error is, and resolves to an object whose
  \<^verbatim>\<open>components\<close> and \<^verbatim>\<open>files\<close> are \<^verbatim>\<open>undefined\<close> if \<open>err\<close> is falsy; it stays pending
  when the callback is never called. Both forms leave the same published states.
\<close>

theorem promise_settles_as_callback:
  "fst (parse K eng None iv) =
     Some (case calls (snd (parse K eng (Some cb) iv)) of
        [] \<Rightarrow> Pending
      | CbOk c f # rest \<Rightarrow> Resolved (Passed c) (Passed f)
      | CbErr err # rest \<Rightarrow> if truthy err then Rejected err else Resolved Omitted Omitted) \<and>
   fst (parse K eng (Some cb) iv) = None \<and>
   tstate (files (result (snd (parse K eng None iv)))) =
     tstate (files (result (snd (parse K eng (Some cb) iv)))) \<and>
   tstate (components (result (snd (parse K eng None iv)))) =
     tstate (components (result (snd (parse K eng (Some cb) iv))))"
proof -
  let ?p = "parse_cb K eng promise_callback iv"
  let ?r = "parse_cb K eng cb iv"
  have ind: "take 1 (calls ?p) = take 1 (calls ?r)"
    and st: "tstate (files (result ?p)) = tstate (files (result ?r))"
      "tstate (components (result ?p)) = tstate (components (result ?r))"
    using first_call_independent [of K eng promise_callback iv cb] by simp_all
  have "fst (parse_promise K eng iv) = (case take 1 (calls ?p) of [] \<Rightarrow> Pending | d # ds \<Rightarrow> settle d)"
    by (cases "calls ?p") (simp_all add: parse_promise_def Let_def thrown_parse_cb)
  also have "\<dots> = (case calls ?r of [] \<Rightarrow> Pending | d # ds \<Rightarrow> settle d)"
    unfolding ind by (cases "calls ?r") simp_all
  also have "\<dots> = (case calls ?r of
        [] \<Rightarrow> Pending
      | CbOk c f # rest \<Rightarrow> Resolved (Passed c) (Passed f)
      | CbErr err # rest \<Rightarrow> if truthy err then Rejected err else Resolved Omitted Omitted)"
    by (simp split: list.splits cb_args.splits)
  finally have "fst (parse_promise K eng iv) = (case calls ?r of
        [] \<Rightarrow> Pending
      | CbOk c f # rest \<Rightarrow> Resolved (Passed c) (Passed f)
      | CbErr err # rest \<Rightarrow> if truthy err then Rejected err else Resolved Omitted Omitted)" .
  moreover have "snd (parse_promise K eng iv) = ?p" by (simp add: parse_promise_def Let_def)
  ultimately show ?thesis using st by (auto simp: parse_def split: prod.splits)
qed

theorem promise_settles_as_callback_witness:
  "fst (parse (example_collab two_records) plain_engine None no_interleave) =
     Some (Resolved (Passed (Some (Collection two_records)))
                    (Passed (Some (Collection two_records)))) \<and>
   fst (parse (example_collab two_records) (addPlugin plain_engine boom Components) None no_interleave) =
     Some (Rejected (JError ''boom''))"
  using promise_settles_as_callback [of "example_collab two_records" plain_engine no_interleave quiet]
    promise_settles_as_callback [of "example_collab two_records"
      "addPlugin plain_engine boom Components" no_interleave quiet]
  by (simp add: run_defs)

text \<open>
  Claim C3 as stated fails when the failure is a falsy value. A files plugin whose promise
  rejects with no reason makes the callback form call \<^verbatim>\<open>callback(undefined)\<close>, and the
  promise form, which tests \<^verbatim>\<open>if (err)\<close>, resolves instead of rejecting.
\<close>

theorem falsy_failure_resolves:
  "calls (snd (parse (example_collab []) (addPlugin (Fractal 0) reject_undefined Files) (Some quiet)
      no_interleave)) = [CbErr JUndefined] \<and>
   fst (parse (example_collab []) (addPlugin (Fractal 0) reject_undefined Files) None no_interleave)
     = Some (Resolved Omitted Omitted)"
  by (simp add: run_defs)

section \<open>When the plugin lists are read\<close>

text \<open>
  Claim C6, as the code has it. A parse does not fix its plugin lists when it is called.
  Each stage applies the list its target holds when that stage's \<^verbatim>\<open>process\<close> is invoked:
  the files stage applies the plugins registered when the read resolves, those added while
  the read was pending included; the components stage applies the plugins registered when
  the transformer's output arrives, and the transformer is the one in force when the files
  state is published. It is given what \<^verbatim>\<open>files.toArray()\<close> returns then, which is the
  array of the files records unless a files method was put over \<^verbatim>\<open>toArray\<close>. A plugin
  added to a target after its \<^verbatim>\<open>process\<close> call was made is not applied by that parse.
\<close>

theorem plugin_lists_read_per_stage:
  assumes "parse_chain K eng iv = Inr e'"
  shows "\<exists>input fc out cc e3 v.
      readDir K (src eng) = Inr input \<and>
      tstate (files e') = Some fc \<and> tstate (components e') = Some cc \<and>
      process (plugins (files eng) @ added_plugins Files (at_read iv))
        (case input of None \<Rightarrow> [] | Some d \<Rightarrow> d) (eid eng) = Inr (toArray fc) \<and>
      files_stage K eng iv = Inr (e3, fc) \<and> invoke e3 fc [''toArray''] [] = Inr v \<and>
      (list_all (\<lambda>(n, w). \<not> name_overwrites K n [''toArray''])
         (methods (files eng) @ added_methods (eid eng) Files (at_read iv @ in_files iv))
       \<longrightarrow> v = JArr (toArray fc)) \<and>
      last_transformer (transformer eng) (at_read iv @ in_files iv) v = Inr out \<and>
      process (plugins (components eng)
          @ added_plugins Components (at_read iv @ in_files iv @ at_transform iv))
        out (eid eng) = Inr (toArray cc)"
proof -
  from assms obtain e3 fc where fs: "files_stage K eng iv = Inr (e3, fc)"
    and cs: "components_stage K e3 fc iv = Inr e'"
    by (cases "files_stage K eng iv") (auto simp: parse_chain_def)
  let ?ms = "methods (files eng) @ added_methods (eid eng) Files (at_read iv @ in_files iv)"
  from files_stage_Inr [OF fs] obtain input items1 where
    rd: "readDir K (src eng) = Inr input" and
    p1: "process (plugins (files eng) @ added_plugins Files (at_read iv))
       (case input of None \<Rightarrow> [] | Some d \<Rightarrow> d) (eid eng) = Inr items1" and
    fc: "fc = bind_methods K ?ms (Collection items1)"
    by blast
  have ifc: "toArray fc = items1" by (simp add: fc)
  note pub = files_stage_published [OF fs]
  from components_stage_Inr [OF cs] obtain v out items2 where
    ta: "invoke e3 fc [''toArray''] [] = Inr v" and
    tr: "transformer e3 v = Inr out" and
    p2: "process (plugins (components e3) @ added_plugins Components (at_transform iv)) out (eid e3)
       = Inr items2" and
    cc: "tstate (components e') = Some (bind_methods K
        (methods (components e3) @ added_methods (eid e3) Components (at_transform iv @ in_components iv))
        (Collection items2))" and
    ff: "tstate (files e') = tstate (files e3)"
    by blast
  let ?cc = "bind_methods K
        (methods (components e3) @ added_methods (eid e3) Components (at_transform iv @ in_components iv))
        (Collection items2)"
  have icc: "toArray ?cc = items2" by simp
  have f': "tstate (files e') = Some fc" using ff pub by simp
  have un: "list_all (\<lambda>(n, w). \<not> name_overwrites K n [''toArray'']) ?ms \<longrightarrow> v = JArr (toArray fc)"
  proof
    assume "list_all (\<lambda>(n, w). \<not> name_overwrites K n [''toArray'']) ?ms"
    from toArray_unshadowed [OF this, of e3 items1] ta show "v = JArr (toArray fc)"
      by (simp add: fc)
  qed
  have t': "last_transformer (transformer eng) (at_read iv @ in_files iv) v = Inr out"
    using tr pub by simp
  have "process (plugins (components eng)
          @ added_plugins Components (at_read iv @ in_files iv @ at_transform iv))
        out (eid eng) = Inr items2"
    using p2 pub by (simp add: added_plugins_append)
  then have p': "process (plugins (components eng)
          @ added_plugins Components (at_read iv @ in_files iv @ at_transform iv))
        out (eid eng) = Inr (toArray ?cc)"
    unfolding icc .
  show ?thesis using rd p1 cc ifc f' fs ta un t' p' by blast
qed

theorem plugin_lists_read_per_stage_witness:
  "\<exists>e' fc cc.
      parse_chain (example_collab [JNum 1]) plain_engine (read_interleave [AddPlugin mark Files]) = Inr e' \<and>
      tstate (files e') = Some fc \<and> tstate (components e') = Some cc \<and>
      process [mark] [JNum 1] 0 = Inr (toArray fc) \<and>
      pass_through (JArr (toArray fc)) = Inr (toArray cc)"
proof -
  let ?K = "example_collab [JNum 1]"
  let ?iv = "read_interleave [AddPlugin mark Files]"
  let ?fin = "projr (parse_chain ?K plain_engine ?iv)"
  have 1: "parse_chain ?K plain_engine ?iv = Inr ?fin" by (simp add: run_defs)
  have ms: "methods (files plain_engine) @ added_methods (eid plain_engine) Files (at_read ?iv @ in_files ?iv) = []"
    by (simp add: plain_engine_def setTransformer_def Fractal_def on_def read_interleave_def)
  from plugin_lists_read_per_stage [OF 1] obtain input fc out cc e3 v where
    "readDir ?K (src plain_engine) = Inr input"
    "tstate (files ?fin) = Some fc" "tstate (components ?fin) = Some cc"
    "process (plugins (files plain_engine) @ added_plugins Files (at_read ?iv))
        (case input of None \<Rightarrow> [] | Some d \<Rightarrow> d) (eid plain_engine) = Inr (toArray fc)"
    "list_all (\<lambda>(n, w). \<not> name_overwrites ?K n [''toArray''])
         (methods (files plain_engine) @ added_methods (eid plain_engine) Files (at_read ?iv @ in_files ?iv))
       \<longrightarrow> v = JArr (toArray fc)"
    "last_transformer (transformer plain_engine) (at_read ?iv @ in_files ?iv) v = Inr out"
    "process (plugins (components plain_engine)
          @ added_plugins Components (at_read ?iv @ in_files ?iv @ at_transform ?iv))
        out (eid plain_engine) = Inr (toArray cc)"
    by blast
  then have "tstate (files ?fin) = Some fc \<and> tstate (components ?fin) = Some cc \<and>
      process [mark] [JNum 1] 0 = Inr (toArray fc) \<and> pass_through (JArr (toArray fc)) = Inr (toArray cc)"
    unfolding ms
    by (auto simp: example_collab_def plain_engine_def setTransformer_def Fractal_def on_def
        read_interleave_def pass_through_def)
  with 1 show ?thesis by blast
qed

text \<open>
  Claim C6 as stated fails. The engine has no files plugin when \<^verbatim>\<open>parse\<close> is called; a
  plugin registered on the files target while the read is pending is applied by that
  parse, whose files Collection then differs from the one the same parse publishes without
  the late registration.
\<close>

theorem late_plugin_applied:
  "plugins (files plain_engine) = [] \<and>
   map_option toArray (tstate (files (result (parse_cb (example_collab [JNum 1]) plain_engine quiet
      (read_interleave [AddPlugin mark Files]))))) = Some [JNum 1, JStr ''late''] \<and>
   map_option toArray (tstate (files (result (parse_cb (example_collab [JNum 1]) plain_engine quiet
      no_interleave)))) = Some [JNum 1]"
  by (simp add: run_defs)

section \<open>Methods registered with addMethod\<close>






section \<open>What is attached to a Collection\<close>




section \<open>What a bound method observes\<close>




end
